theory Spec2Isabelle
  imports Main "HOL-Library.Multiset"
begin

section \<open>Ranges of block heights\<close>

text \<open>
  A \<open>Range\<close> is an inclusive span of block heights; a missing upper bound (\<open>rto = None\<close>)
  means "until the end of the run". The source writes the fields \<open>from\<close> and \<open>to\<close>.
\<close>

record Range =
  rfrom :: nat
  rto :: "nat option"

definition wf_range :: "Range \<Rightarrow> bool" where
  "wf_range r = (case rto r of None \<Rightarrow> True | Some t \<Rightarrow> rfrom r \<le> t)"

definition contains :: "Range \<Rightarrow> nat \<Rightarrow> bool" where
  "contains r h = (rfrom r \<le> h \<and> (case rto r of None \<Rightarrow> True | Some t \<Rightarrow> h \<le> t))"

definition range_set :: "Range \<Rightarrow> nat set" where
  "range_set r = {h. contains r h}"

text \<open>The smaller of two upper bounds, a missing bound counting as infinity.\<close>

definition min_to :: "nat option \<Rightarrow> nat option \<Rightarrow> nat option" where
  "min_to a b = (case a of None \<Rightarrow> b | Some x \<Rightarrow> (case b of None \<Rightarrow> Some x | Some y \<Rightarrow> Some (min x y)))"

text \<open>
  Modelled from the spec: \<open>rangeIntersection\<close> of \<open>util/range\<close>, which is not among the
  sources. The result starts at the larger \<open>from\<close> and ends at the smaller \<open>to\<close>, an
  unbounded end counting as infinity; there is no result when the start exceeds the end.
\<close>

definition rangeIntersection :: "Range \<Rightarrow> Range \<Rightarrow> Range option" where
  "rangeIntersection a b =
     (let beg = max (rfrom a) (rfrom b); fin = min_to (rto a) (rto b)
      in case fin of
           None \<Rightarrow> Some \<lparr>rfrom = beg, rto = None\<rparr>
         | Some e \<Rightarrow> if beg > e then None else Some \<lparr>rfrom = beg, rto = Some e\<rparr>)"

text \<open>
  Modelled from the spec: \<open>rangeDifference\<close> of \<open>util/range\<close>, which is not among the
  sources. It returns the sub-ranges of \<open>a\<close> that \<open>b\<close> does not cover: nothing when \<open>b\<close>
  covers \<open>a\<close>, otherwise the remainder to the left of \<open>b\<close> and the remainder to the right
  of \<open>b\<close>, each only when it is not empty; \<open>a\<close> itself when the two are disjoint.
\<close>

definition rangeDifference :: "Range \<Rightarrow> Range \<Rightarrow> Range list" where
  "rangeDifference a b =
     (case rangeIntersection a b of
        None \<Rightarrow> [a]
      | Some i \<Rightarrow>
          (if rfrom a < rfrom i then [\<lparr>rfrom = rfrom a, rto = Some (rfrom i - 1)\<rparr>] else []) @
          (case rto i of
             None \<Rightarrow> []
           | Some e \<Rightarrow>
               (case rto a of
                  None \<Rightarrow> [\<lparr>rfrom = e + 1, rto = None\<rparr>]
                | Some t \<Rightarrow> if e < t then [\<lparr>rfrom = e + 1, rto = Some t\<rparr>] else [])))"

section \<open>Handler aggregates of the batch scheduler\<close>

type_synonym QualifiedName = string
type_synonym EvmContractAddress = string

text \<open>A topic filter position: absent (\<open>null\<close> or \<open>undefined\<close>), one topic, or a list of topics.\<close>

datatype EvmTopicSet = TopicAny | TopicOne string | TopicMany "string list"

record 'h EvmLogEntry =
  entry_filter :: "EvmTopicSet list option"
  entry_handler :: 'h

text \<open>
  \<open>DataHandlers\<close> of the scheduler: the handlers are callbacks, of which the model only
  keeps the identity (the type variable \<open>'h\<close>). A \<open>Record\<close> of the source is a map; its
  keys are qualified names and contract addresses, looked up as own properties.
\<close>

record 'h DataHandlers =
  pre :: "'h list"
  post :: "'h list"
  events :: "QualifiedName \<rightharpoonup> 'h list"
  extrinsics :: "QualifiedName \<rightharpoonup> (QualifiedName \<rightharpoonup> 'h list)"
  evmLogs :: "EvmContractAddress \<rightharpoonup> 'h EvmLogEntry list"

record 'h Batch =
  brange :: Range
  handlers :: "'h DataHandlers"

text \<open>
  \<open>mergeMaps\<close>: the first loop visits the keys of \<open>a\<close>, the second loop adds the keys of
  \<open>b\<close> that the result does not have yet.
\<close>

definition mergeMaps :: "('k \<rightharpoonup> 't) \<Rightarrow> ('k \<rightharpoonup> 't) \<Rightarrow> ('t \<Rightarrow> 't \<Rightarrow> 't) \<Rightarrow> ('k \<rightharpoonup> 't)" where
  "mergeMaps a b mergeItems =
     (let result1 = (\<lambda>key. case a key of
                             None \<Rightarrow> None
                           | Some x \<Rightarrow> (case b key of None \<Rightarrow> Some x | Some y \<Rightarrow> Some (mergeItems x y)))
      in (\<lambda>key. case b key of
                   None \<Rightarrow> result1 key
                 | Some y \<Rightarrow> (case result1 key of None \<Rightarrow> Some y | Some z \<Rightarrow> Some z)))"

definition mergeDataHandlers :: "'h DataHandlers \<Rightarrow> 'h DataHandlers \<Rightarrow> 'h DataHandlers" where
  "mergeDataHandlers a b =
     \<lparr>pre = pre a @ pre b,
      post = post a @ post b,
      events = mergeMaps (events a) (events b) (\<lambda>ha hb. ha @ hb),
      extrinsics = mergeMaps (extrinsics a) (extrinsics b)
                     (\<lambda>ea eb. mergeMaps ea eb (\<lambda>ha hb. ha @ hb)),
      evmLogs = mergeMaps (evmLogs a) (evmLogs b) (\<lambda>ha hb. ha @ hb)\<rparr>"

text \<open>
  The key-wise union in the words of the specification: a key of one side only keeps that
  side's value, a key of both sides gets the two values combined, the first argument's
  first.
\<close>

definition key_union :: "('t \<Rightarrow> 't \<Rightarrow> 't) \<Rightarrow> 't option \<Rightarrow> 't option \<Rightarrow> 't option" where
  "key_union f x y =
     (case x of
        None \<Rightarrow> y
      | Some u \<Rightarrow> (case y of None \<Rightarrow> Some u | Some v \<Rightarrow> Some (f u v)))"

text \<open>Two aggregates that share an event and an extrinsic key.\<close>

definition left_handlers :: "nat DataHandlers" where
  "left_handlers =
     \<lparr>pre = [1], post = [],
      events = [''Balances.Transfer'' \<mapsto> [2], ''System.Remarked'' \<mapsto> [3]],
      extrinsics = [''Balances.Transfer'' \<mapsto> [''balances.transfer'' \<mapsto> [4]]],
      evmLogs = Map.empty\<rparr>"

definition right_handlers :: "nat DataHandlers" where
  "right_handlers =
     \<lparr>pre = [5], post = [6],
      events = [''Balances.Transfer'' \<mapsto> [7]],
      extrinsics = [''Balances.Transfer'' \<mapsto> [''balances.transfer'' \<mapsto> [8]]],
      evmLogs = [''0xabc'' \<mapsto> [\<lparr>entry_filter = None, entry_handler = 9\<rparr>]]\<rparr>"

section \<open>Merging two handler aggregates\<close>

lemma mergeMaps_key: "mergeMaps a b f key = key_union f (a key) (b key)"
  by (simp add: mergeMaps_def key_union_def split: option.splits)

text \<open>
  Claim C7. \<open>mergeDataHandlers a b\<close> concatenates the unkeyed slots \<open>pre\<close> and \<open>post\<close>
  with the entries of \<open>a\<close> before those of \<open>b\<close>, and every keyed slot is the key-wise
  union of the two inputs: a key of one input only maps to that input's value, a key of
  both maps to the list of \<open>a\<close> followed by the list of \<open>b\<close> (for \<open>extrinsics\<close>, to the
  key-wise union of the two inner maps). The merge is a function of its two arguments:
  it builds a new aggregate and changes neither input.
\<close>

theorem mergeDataHandlers_union:
  "pre (mergeDataHandlers a b) = pre a @ pre b \<and>
   post (mergeDataHandlers a b) = post a @ post b \<and>
   (\<forall>k. events (mergeDataHandlers a b) k = key_union (@) (events a k) (events b k)) \<and>
   (\<forall>k. extrinsics (mergeDataHandlers a b) k =
        key_union (\<lambda>ea eb. (\<lambda>k'. key_union (@) (ea k') (eb k'))) (extrinsics a k) (extrinsics b k)) \<and>
   (\<forall>k. evmLogs (mergeDataHandlers a b) k = key_union (@) (evmLogs a k) (evmLogs b k))"
proof -
  have inner: "\<And>ea eb. mergeMaps ea eb (\<lambda>ha hb. ha @ hb) = (\<lambda>k'. key_union (@) (ea k') (eb k'))"
    by (rule ext) (simp add: mergeMaps_key)
  show ?thesis
    by (simp add: mergeDataHandlers_def mergeMaps_key inner)
qed

theorem mergeDataHandlers_union_witness:
  "pre (mergeDataHandlers left_handlers right_handlers) = [1, 5] \<and>
   post (mergeDataHandlers left_handlers right_handlers) = [6] \<and>
   events (mergeDataHandlers left_handlers right_handlers) ''Balances.Transfer'' = Some [2, 7] \<and>
   events (mergeDataHandlers left_handlers right_handlers) ''System.Remarked'' = Some [3] \<and>
   events (mergeDataHandlers left_handlers right_handlers) ''Balances.Deposit'' = None \<and>
   evmLogs (mergeDataHandlers left_handlers right_handlers) ''0xabc'' =
     Some [\<lparr>entry_filter = None, entry_handler = 9\<rparr>]"
  using mergeDataHandlers_union[of left_handlers right_handlers]
  by (simp add: left_handlers_def right_handlers_def key_union_def)

section \<open>The priority queue of the sweep\<close>

text \<open>
  Modelled from the spec: the class \<open>Heap\<close> of \<open>util/heap\<close>, which is not among the
  sources: a min-heap ordered by the comparator given at construction, with \<open>init\<close> from a
  sequence, \<open>push\<close>, \<open>pop\<close> of the smallest entry and \<open>peek\<close> without removal. The model
  keeps the entries in a list in the order of insertion; \<open>peek\<close> and \<open>pop\<close> take the
  leftmost entry that no entry is smaller than. \<open>heap_extract cmp x xs\<close> is that entry
  of \<open>x # xs\<close> and the list without it.
\<close>

fun heap_extract :: "('a \<Rightarrow> 'a \<Rightarrow> int) \<Rightarrow> 'a \<Rightarrow> 'a list \<Rightarrow> 'a \<times> 'a list" where
  "heap_extract cmp x [] = (x, [])"
| "heap_extract cmp x (y # ys) =
     (case heap_extract cmp y ys of
        (m, rest) \<Rightarrow> if cmp x m \<le> 0 then (x, y # ys) else (m, x # rest))"

text \<open>Modelled from the spec: \<open>Heap.init\<close>, the heap holding the entries of a sequence.\<close>

definition heap_init :: "'a list \<Rightarrow> 'a list" where
  "heap_init arr = arr"

text \<open>Modelled from the spec: \<open>Heap.push\<close>, the heap with one more entry.\<close>

definition heap_push :: "'a \<Rightarrow> 'a list \<Rightarrow> 'a list" where
  "heap_push x h = h @ [x]"

text \<open>
  Modelled from the spec: \<open>Heap.pop\<close>, which removes and returns the smallest entry, and
  returns \<open>undefined\<close> on an empty heap.
\<close>

definition heap_pop :: "('a \<Rightarrow> 'a \<Rightarrow> int) \<Rightarrow> 'a list \<Rightarrow> 'a option \<times> 'a list" where
  "heap_pop cmp h =
     (case h of
        [] \<Rightarrow> (None, [])
      | x # xs \<Rightarrow> (case heap_extract cmp x xs of (m, rest) \<Rightarrow> (Some m, rest)))"

text \<open>Modelled from the spec: \<open>Heap.peek\<close>, the entry that \<open>pop\<close> would return.\<close>

definition heap_peek :: "('a \<Rightarrow> 'a \<Rightarrow> int) \<Rightarrow> 'a list \<Rightarrow> 'a option" where
  "heap_peek cmp h = fst (heap_pop cmp h)"

section \<open>The sweep of mergeBatches\<close>

text \<open>
  \<open>mergeBatches\<close> can only throw the failed \<open>assertNotNull\<close> on an empty heap. The heap
  orders batches by \<open>a.range.from - b.range.from\<close>.
\<close>

datatype sched_error = NotNullAssertion

definition batch_cmp :: "'h Batch \<Rightarrow> 'h Batch \<Rightarrow> int" where
  "batch_cmp a b = int (rfrom (brange a)) - int (rfrom (brange b))"

text \<open>
  \<open>push_pieces\<close> is the \<open>forEach\<close> that pushes the pieces of a range difference, each with
  the handlers of the batch it was cut from.
\<close>

definition push_pieces :: "Range list \<Rightarrow> 'h DataHandlers \<Rightarrow> 'h Batch list \<Rightarrow> 'h Batch list" where
  "push_pieces rs hs heap = fold (\<lambda>r. heap_push \<lparr>brange = r, handlers = hs\<rparr>) rs heap"

text \<open>
  The measure of the loop. Every range in the heap has its ends among the ends of the
  input ranges, so with \<open>cap\<close>, the largest end, standing for infinity, the total length of
  the ranges in \<open>top\<close> and the heap is finite. A step that finds an intersection removes
  that intersection once from the total; a step that finds none removes a batch from the
  heap.
\<close>

definition range_bound :: "Range \<Rightarrow> nat" where
  "range_bound r = max (rfrom r) (case rto r of None \<Rightarrow> 0 | Some t \<Rightarrow> Suc t)"

definition cap :: "Range multiset \<Rightarrow> nat" where
  "cap M = Max (insert 0 (range_bound ` set_mset M))"

definition range_len :: "nat \<Rightarrow> Range \<Rightarrow> nat" where
  "range_len c r = (case rto r of None \<Rightarrow> Suc c | Some t \<Rightarrow> Suc t) - rfrom r"

definition total_len :: "Range multiset \<Rightarrow> nat" where
  "total_len M = sum_mset (image_mset (range_len (cap M)) M)"

definition loop_measure :: "'h Batch \<Rightarrow> 'h Batch list \<Rightarrow> nat" where
  "loop_measure topb heap = 2 * total_len (image_mset brange (mset (topb # heap))) + length heap"

lemma heap_extract_mset: "heap_extract cmp x xs = (m, rest) \<Longrightarrow> mset (x # xs) = add_mset m (mset rest)"
proof (induction xs arbitrary: x m rest)
  case Nil
  then show ?case by simp
next
  case (Cons y ys)
  obtain m' rest' where e: "heap_extract cmp y ys = (m', rest')" by (cases "heap_extract cmp y ys")
  from Cons.IH[OF e] Cons.prems e show ?case by (auto split: if_splits)
qed

lemma heap_extract_min:
  assumes "\<And>a b. (cmp a b \<le> 0) = (key a \<le> (key b :: nat))"
  shows "heap_extract cmp x xs = (m, rest) \<Longrightarrow> \<forall>y\<in>set (x # xs). key m \<le> key y"
proof (induction xs arbitrary: x m rest)
  case Nil
  then show ?case by simp
next
  case (Cons y ys)
  obtain m' rest' where e: "heap_extract cmp y ys = (m', rest')" by (cases "heap_extract cmp y ys")
  from Cons.IH[OF e] Cons.prems e show ?case by (auto simp: assms split: if_splits)
qed

lemma batch_cmp_le: "(batch_cmp a b \<le> 0) = (rfrom (brange a) \<le> rfrom (brange b))"
  by (simp add: batch_cmp_def)

lemma heap_pop_None: "heap_pop cmp h = (None, h') \<longleftrightarrow> h = [] \<and> h' = []"
  by (auto simp: heap_pop_def split: list.splits prod.splits)

lemma heap_pop_mset: "heap_pop cmp h = (Some m, h') \<Longrightarrow> mset h = add_mset m (mset h')"
  by (auto simp: heap_pop_def split: list.splits prod.splits dest: heap_extract_mset)

lemma heap_pop_min: "heap_pop batch_cmp h = (Some m, h') \<Longrightarrow> \<forall>y\<in>set h. rfrom (brange m) \<le> rfrom (brange y)"
  by (auto simp: heap_pop_def split: list.splits prod.splits dest!: heap_extract_min[of batch_cmp "\<lambda>b. rfrom (brange b)", OF batch_cmp_le])

lemma heap_peek_pop: "heap_peek cmp h = Some b \<Longrightarrow> \<exists>h'. heap_pop cmp h = (Some b, h')"
  by (cases "heap_pop cmp h") (simp add: heap_peek_def)

lemma heap_peek_None: "heap_peek cmp h = None \<longleftrightarrow> h = []"
  by (auto simp: heap_peek_def heap_pop_def split: list.splits prod.splits)

lemma mset_push_pieces: "mset (push_pieces rs hs heap) = mset heap + mset (map (\<lambda>r. \<lparr>brange = r, handlers = hs\<rparr>) rs)"
  unfolding push_pieces_def by (induction rs arbitrary: heap) (auto simp: heap_push_def)

text \<open>
  The pushes of the branch with an intersection \<open>i\<close>, after \<open>batch\<close> has been popped: the
  pieces of \<open>top\<close> outside \<open>i\<close>, the pieces of \<open>batch\<close> outside \<open>i\<close>, then \<open>i\<close> with the
  merged handlers.
\<close>

definition split_push :: "'h Batch \<Rightarrow> 'h Batch \<Rightarrow> Range \<Rightarrow> 'h Batch list \<Rightarrow> 'h Batch list" where
  "split_push topb batch i heap =
     heap_push \<lparr>brange = i, handlers = mergeDataHandlers (handlers topb) (handlers batch)\<rparr>
       (push_pieces (rangeDifference (brange batch) i) (handlers batch)
         (push_pieces (rangeDifference (brange topb) i) (handlers topb) heap))"

lemma inter_Some:
  "rangeIntersection a b = Some i \<Longrightarrow>
     rfrom i = max (rfrom a) (rfrom b) \<and> rto i = min_to (rto a) (rto b) \<and> wf_range i"
  by (auto simp: rangeIntersection_def Let_def wf_range_def split: option.splits if_splits)

lemma inter_self: "rangeIntersection a b = Some i \<Longrightarrow> rangeIntersection a i = Some i"
  by (auto simp: rangeIntersection_def min_to_def Let_def split: option.splits if_splits)

lemma inter_self2: "rangeIntersection a b = Some i \<Longrightarrow> rangeIntersection b i = Some i"
  by (auto simp: rangeIntersection_def min_to_def Let_def split: option.splits if_splits)

lemma cap_ge: "r \<in># M \<Longrightarrow> range_bound r \<le> cap M"
  by (simp add: cap_def)

lemma cap_le: "\<forall>r\<in>#M. range_bound r \<le> c \<Longrightarrow> cap M \<le> c"
  by (simp add: cap_def)

lemma range_len_mono: "c \<le> c' \<Longrightarrow> range_len c r \<le> range_len c' r"
  by (auto simp: range_len_def split: option.splits)

lemma total_len_le:
  assumes "\<forall>r\<in>#M. range_bound r \<le> c"
  shows "total_len M \<le> sum_mset (image_mset (range_len c) M)"
  unfolding total_len_def
  by (intro sum_mset_mono range_len_mono cap_le assms)

lemma split_len:
  assumes "rangeIntersection a b = Some i" "range_bound a \<le> c" "range_bound b \<le> c"
  shows "sum_list (map (range_len c) (rangeDifference a i @ rangeDifference b i @ [i]))
           < range_len c a + range_len c b"
    and "\<forall>r\<in>set (rangeDifference a i @ rangeDifference b i @ [i]). range_bound r \<le> c"
    and "length (rangeDifference a i @ rangeDifference b i) \<le> 2"
proof -
  note i = inter_Some[OF assms(1)]
  note d = rangeDifference_def inter_self[OF assms(1)] inter_self2[OF assms(1)]
  show "sum_list (map (range_len c) (rangeDifference a i @ rangeDifference b i @ [i]))
           < range_len c a + range_len c b"
    using i assms(2,3)
    by (cases "rto a"; cases "rto b")
       (auto simp: d min_to_def range_len_def range_bound_def wf_range_def)
  show "\<forall>r\<in>set (rangeDifference a i @ rangeDifference b i @ [i]). range_bound r \<le> c"
    using i assms(2,3)
    by (cases "rto a"; cases "rto b")
       (auto simp: d min_to_def range_bound_def wf_range_def)
  show "length (rangeDifference a i @ rangeDifference b i) \<le> 2"
    using i
    by (cases "rto a"; cases "rto b")
       (auto simp: d min_to_def wf_range_def)
qed

lemma total_len_add: "total_len M \<le> total_len (add_mset r M)"
proof -
  have "total_len M \<le> sum_mset (image_mset (range_len (cap (add_mset r M))) M)"
    by (rule total_len_le) (simp add: cap_ge)
  then show ?thesis by (simp add: total_len_def)
qed

lemma measure_emit:
  assumes "heap_pop batch_cmp heap = (Some t, h')"
  shows "loop_measure t h' < loop_measure topb heap"
proof -
  from heap_pop_mset[OF assms] have m: "mset heap = add_mset t (mset h')" .
  then have "size (mset heap) = Suc (size (mset h'))" by simp
  then have l: "length h' < length heap" by simp
  have "total_len (image_mset brange (mset (t # h'))) \<le> total_len (image_mset brange (mset (topb # heap)))"
    using total_len_add[of "image_mset brange (mset heap)" "brange topb"] by (simp add: m)
  with l show ?thesis by (simp add: loop_measure_def)
qed

lemma measure_split:
  assumes pk: "heap_peek batch_cmp heap = Some batch"
    and i: "rangeIntersection (brange topb) (brange batch) = Some i"
    and pp: "heap_pop batch_cmp (split_push topb batch i (snd (heap_pop batch_cmp heap))) = (Some t, h')"
  shows "loop_measure t h' < loop_measure topb heap"
proof -
  obtain heap1 where p1: "heap_pop batch_cmp heap = (Some batch, heap1)"
    using heap_peek_pop[OF pk] by blast
  let ?pieces = "rangeDifference (brange topb) i @ rangeDifference (brange batch) i"
  let ?old = "image_mset brange (mset (topb # heap))"
  let ?new = "image_mset brange (mset (t # h'))"
  let ?c = "cap ?old"
  have m0: "mset heap = add_mset batch (mset heap1)" by (rule heap_pop_mset[OF p1])
  have m1: "mset (t # h') = mset (split_push topb batch i heap1)"
    using heap_pop_mset[OF pp] by (simp add: p1)
  have new: "?new = image_mset brange (mset heap1) + mset (?pieces @ [i])"
    by (simp add: m1 split_push_def heap_push_def mset_push_pieces image_mset_union comp_def del: mset.simps(2) flip: mset_map)
  have old: "?old = add_mset (brange topb) (add_mset (brange batch) (image_mset brange (mset heap1)))"
    by (simp add: m0)
  have bin: "batch \<in># mset heap" unfolding m0 by simp
  have ba: "range_bound (brange topb) \<le> ?c" and bb: "range_bound (brange batch) \<le> ?c"
    using bin by (auto intro!: cap_ge)
  note sl = split_len[OF i ba bb]
  have sh: "set heap = insert batch (set heap1)"
    using arg_cong[OF m0, of set_mset] by simp
  have b1: "\<forall>r\<in>#?new. range_bound r \<le> ?c"
  proof
    fix r assume "r \<in># ?new"
    then consider "r \<in> brange ` set heap1" | "r \<in> set (?pieces @ [i])"
      unfolding new by auto
    then show "range_bound r \<le> ?c"
    proof cases
      case 1
      then have "r \<in># ?old" using sh by auto
      then show ?thesis by (rule cap_ge)
    next
      case 2
      then have "r \<in> set (rangeDifference (brange topb) i @ rangeDifference (brange batch) i @ [i])"
        by simp
      then show ?thesis by (rule bspec[OF sl(2)])
    qed
  qed
  have "total_len ?new \<le> sum_mset (image_mset (range_len ?c) ?new)"
    by (rule total_len_le[OF b1])
  also have "\<dots> = sum_mset (image_mset (range_len ?c) (image_mset brange (mset heap1)))
                   + sum_list (map (range_len ?c) (?pieces @ [i]))"
    unfolding new by (simp only: image_mset_union sum_mset.union flip: mset_map sum_mset_sum_list)
  also have "\<dots> < sum_mset (image_mset (range_len ?c) (image_mset brange (mset heap1)))
                   + (range_len ?c (brange topb) + range_len ?c (brange batch))"
    using sl(1) by simp
  also have "\<dots> = total_len ?old"
    unfolding total_len_def by (simp add: m0)
  finally have tl: "total_len ?new < total_len ?old" .
  have "Suc (length h') = length heap1 + length ?pieces + 1"
    using arg_cong[OF m1, of size] by (simp add: split_push_def heap_push_def mset_push_pieces)
  moreover have "length heap = Suc (length heap1)"
    using arg_cong[OF m0, of size] by simp
  ultimately have "length h' \<le> length heap + 1" using sl(3) by simp
  with tl show ?thesis by (simp add: loop_measure_def)
qed

text \<open>
  The \<open>while\<close> loop of \<open>mergeBatches\<close>, with the current \<open>top\<close>, the heap and the output
  list \<open>union\<close> as its state (written \<open>topb\<close> and \<open>unionb\<close>). The result is the list
  returned, or the error of a failed \<open>assertNotNull\<close>.
\<close>

function mergeLoop :: "'h Batch \<Rightarrow> 'h Batch list \<Rightarrow> 'h Batch list \<Rightarrow> sched_error + 'h Batch list" where
  "mergeLoop topb heap unionb =
     (case heap_peek batch_cmp heap of
        None \<Rightarrow> Inr (unionb @ [topb])
      | Some batch \<Rightarrow>
          (case rangeIntersection (brange topb) (brange batch) of
             None \<Rightarrow>
               (case heap_pop batch_cmp heap of
                  (None, heap') \<Rightarrow> Inl NotNullAssertion
                | (Some top', heap') \<Rightarrow> mergeLoop top' heap' (unionb @ [topb]))
           | Some i \<Rightarrow>
               (case heap_pop batch_cmp (split_push topb batch i (snd (heap_pop batch_cmp heap))) of
                  (None, heap') \<Rightarrow> Inl NotNullAssertion
                | (Some top', heap') \<Rightarrow> mergeLoop top' heap' unionb)))"
  by pat_completeness auto
termination
proof (relation "measure (\<lambda>(topb, heap, unionb). loop_measure topb heap)", goal_cases)
  case 1
  show ?case by simp
next
  case (2 topb heap unionb batch x y top')
  then show ?case by (simp add: measure_emit)
next
  case (3 topb heap unionb batch i x y top')
  then show ?case by (simp add: measure_split)
qed

declare mergeLoop.simps [simp del]

section \<open>What a batch list offers at a height\<close>

text \<open>
  The handlers of an aggregate, slot by slot and key by key: a slot is \<open>pre\<close>, \<open>post\<close>,
  an event name, an event name with an extrinsic name, or a contract address. A key that
  the aggregate does not have holds no entries.
\<close>

datatype slot = PreSlot | PostSlot | EventSlot QualifiedName
  | ExtrinsicSlot QualifiedName QualifiedName | EvmLogSlot EvmContractAddress

fun slot_entries :: "'h DataHandlers \<Rightarrow> slot \<Rightarrow> ('h + 'h EvmLogEntry) list" where
  "slot_entries d PreSlot = map Inl (pre d)"
| "slot_entries d PostSlot = map Inl (post d)"
| "slot_entries d (EventSlot k) = (case events d k of None \<Rightarrow> [] | Some hs \<Rightarrow> map Inl hs)"
| "slot_entries d (ExtrinsicSlot k k') =
     (case extrinsics d k of
        None \<Rightarrow> []
      | Some m \<Rightarrow> (case m k' of None \<Rightarrow> [] | Some hs \<Rightarrow> map Inl hs))"
| "slot_entries d (EvmLogSlot k) = (case evmLogs d k of None \<Rightarrow> [] | Some es \<Rightarrow> map Inr es)"

text \<open>
  \<open>before a b\<close>: the range \<open>a\<close> ends before \<open>b\<close> starts. \<open>entries_mset\<close> collects, for a
  height and a slot, the entries of all batches whose range contains the height;
  \<open>covered\<close> says whether some batch contains it. \<open>loop_inv\<close> is the invariant of the
  sweep: all ranges are well formed, \<open>top\<close> starts no later than any batch in the heap, and
  the batches already emitted end before \<open>top\<close> starts, each before the next.
\<close>

definition before :: "Range \<Rightarrow> Range \<Rightarrow> bool" where
  "before a b = (case rto a of None \<Rightarrow> False | Some t \<Rightarrow> t < rfrom b)"

definition entries_mset :: "'h Batch multiset \<Rightarrow> nat \<Rightarrow> slot \<Rightarrow> ('h + 'h EvmLogEntry) multiset" where
  "entries_mset M h s =
     (\<Sum>b\<in>#M. if contains (brange b) h then mset (slot_entries (handlers b) s) else {#})"

definition covered :: "'h Batch multiset \<Rightarrow> nat \<Rightarrow> bool" where
  "covered M h = (\<exists>b\<in>#M. contains (brange b) h)"

definition loop_inv :: "'h Batch \<Rightarrow> 'h Batch list \<Rightarrow> 'h Batch list \<Rightarrow> bool" where
  "loop_inv topb heap unionb =
     ((\<forall>b\<in>set (topb # heap @ unionb). wf_range (brange b)) \<and>
      (\<forall>b\<in>set heap. rfrom (brange topb) \<le> rfrom (brange b)) \<and>
      (\<forall>u\<in>set unionb. before (brange u) (brange topb)) \<and>
      sorted_wrt before (map brange unionb))"

lemma slot_entries_merge:
  "slot_entries (mergeDataHandlers a b) s = slot_entries a s @ slot_entries b s"
  by (cases s) (auto simp: mergeDataHandlers_def mergeMaps_key key_union_def split: option.splits)

lemma contains_inter:
  "rangeIntersection a b = Some i \<Longrightarrow> contains i h = (contains a h \<and> contains b h)"
  by (auto simp: rangeIntersection_def min_to_def Let_def contains_def split: option.splits if_splits)

lemma inter_None_disjoint:
  "rangeIntersection a b = None \<Longrightarrow> \<not> (contains a h \<and> contains b h)"
  by (auto simp: rangeIntersection_def min_to_def Let_def contains_def split: option.splits if_splits)

lemma inter_None_before:
  "rangeIntersection a b = None \<Longrightarrow> wf_range b \<Longrightarrow> rfrom a \<le> rfrom b \<Longrightarrow> before a b"
  by (auto simp: rangeIntersection_def min_to_def Let_def before_def wf_range_def split: option.splits if_splits)

lemma diff_count:
  assumes "rangeIntersection a b = Some i"
  shows "length (filter (\<lambda>r. contains r h) (rangeDifference a i)) = (if contains a h \<and> \<not> contains i h then 1 else 0)"
    and "length (filter (\<lambda>r. contains r h) (rangeDifference b i)) = (if contains b h \<and> \<not> contains i h then 1 else 0)"
  using inter_Some[OF assms]
  by (cases "rto a"; cases "rto b";
      auto simp: rangeDifference_def inter_self[OF assms] inter_self2[OF assms] min_to_def contains_def wf_range_def)+

lemma diff_wf:
  assumes "rangeIntersection a b = Some i"
  shows "\<forall>r\<in>set (rangeDifference a i @ rangeDifference b i @ [i]).
           wf_range r \<and> min (rfrom a) (rfrom b) \<le> rfrom r"
  using inter_Some[OF assms]
  by (cases "rto a"; cases "rto b")
     (auto simp: rangeDifference_def inter_self[OF assms] inter_self2[OF assms] min_to_def wf_range_def)

lemma entries_mset_union [simp]: "entries_mset (M + N) h s = entries_mset M h s + entries_mset N h s"
  by (simp add: entries_mset_def)

lemma entries_mset_add [simp]:
  "entries_mset (add_mset b M) h s =
     (if contains (brange b) h then mset (slot_entries (handlers b) s) else {#}) + entries_mset M h s"
  by (simp add: entries_mset_def)

lemma entries_mset_empty [simp]: "entries_mset {#} h s = {#}"
  by (simp add: entries_mset_def)

lemma covered_union [simp]: "covered (M + N) h = (covered M h \<or> covered N h)"
  by (auto simp: covered_def)

lemma covered_add [simp]: "covered (add_mset b M) h = (contains (brange b) h \<or> covered M h)"
  by (auto simp: covered_def)

lemma covered_empty [simp]: "covered {#} h = False"
  by (simp add: covered_def)

lemma entries_mset_pieces:
  "entries_mset (image_mset (\<lambda>r. \<lparr>brange = r, handlers = hs\<rparr>) (mset rs)) h s =
     repeat_mset (length (filter (\<lambda>r. contains r h) rs)) (mset (slot_entries hs s))"
  by (induction rs) auto

lemma covered_pieces:
  "covered (image_mset (\<lambda>r. \<lparr>brange = r, handlers = hs\<rparr>) (mset rs)) h =
     (0 < length (filter (\<lambda>r. contains r h) rs))"
  by (induction rs) auto

lemma mset_split_push:
  "mset (split_push topb batch i heap1) =
     mset heap1
     + mset (map (\<lambda>r. \<lparr>brange = r, handlers = handlers topb\<rparr>) (rangeDifference (brange topb) i))
     + mset (map (\<lambda>r. \<lparr>brange = r, handlers = handlers batch\<rparr>) (rangeDifference (brange batch) i))
     + {#\<lparr>brange = i, handlers = mergeDataHandlers (handlers topb) (handlers batch)\<rparr>#}"
  by (simp add: split_push_def heap_push_def mset_push_pieces)

lemma split_entries:
  assumes "rangeIntersection (brange topb) (brange batch) = Some i"
  shows "entries_mset (mset (split_push topb batch i heap1)) h s =
           entries_mset (add_mset topb (add_mset batch (mset heap1))) h s"
  by (simp add: mset_split_push entries_mset_pieces diff_count[OF assms] contains_inter[OF assms]
        slot_entries_merge)

lemma split_covered:
  assumes "rangeIntersection (brange topb) (brange batch) = Some i"
  shows "covered (mset (split_push topb batch i heap1)) h =
           covered (add_mset topb (add_mset batch (mset heap1))) h"
  by (auto simp add: mset_split_push covered_pieces diff_count[OF assms] contains_inter[OF assms])

lemma split_wf:
  assumes i: "rangeIntersection (brange topb) (brange batch) = Some i"
    and "\<forall>b\<in>set heap1. wf_range (brange b) \<and> rfrom (brange topb) \<le> rfrom (brange b)"
    and "rfrom (brange topb) \<le> rfrom (brange batch)"
  shows "\<forall>b\<in>set (split_push topb batch i heap1). wf_range (brange b) \<and> rfrom (brange topb) \<le> rfrom (brange b)"
proof
  fix b assume "b \<in> set (split_push topb batch i heap1)"
  then have "b \<in># mset (split_push topb batch i heap1)" by simp
  then consider "b \<in> set heap1"
    | "brange b \<in> set (rangeDifference (brange topb) i @ rangeDifference (brange batch) i @ [i])"
    unfolding mset_split_push by auto
  then show "wf_range (brange b) \<and> rfrom (brange topb) \<le> rfrom (brange b)"
  proof cases
    case 1
    then show ?thesis using assms(2) by blast
  next
    case 2
    from bspec[OF diff_wf[OF i] 2] assms(3) show ?thesis by simp
  qed
qed

lemma emit_step:
  assumes inv: "loop_inv topb heap unionb"
    and pk: "heap_peek batch_cmp heap = Some batch"
    and none: "rangeIntersection (brange topb) (brange batch) = None"
    and pop: "heap_pop batch_cmp heap = (Some t, h')"
  shows "loop_inv t h' (unionb @ [topb])"
    and "mset heap = add_mset t (mset h')"
proof -
  from heap_peek_pop[OF pk] pop have tb: "t = batch" by auto
  show m: "mset heap = add_mset t (mset h')" by (rule heap_pop_mset[OF pop])
  have sh: "set heap = insert t (set h')"
    using arg_cong[OF m, of set_mset] by simp
  have wt: "wf_range (brange t)" and le: "rfrom (brange topb) \<le> rfrom (brange t)"
    using inv sh by (auto simp: loop_inv_def)
  have bt: "before (brange topb) (brange t)"
    using inter_None_before[OF none[folded tb] wt le] .
  have bu: "\<forall>u\<in>set unionb. before (brange u) (brange t)"
    using inv le by (auto simp: loop_inv_def before_def split: option.splits)
  show "loop_inv t h' (unionb @ [topb])"
    using inv sh bt bu heap_pop_min[OF pop]
    by (auto simp: loop_inv_def sorted_wrt_append)
qed

lemma split_step:
  assumes inv: "loop_inv topb heap unionb"
    and pk: "heap_peek batch_cmp heap = Some batch"
    and i: "rangeIntersection (brange topb) (brange batch) = Some i"
    and pop: "heap_pop batch_cmp (split_push topb batch i (snd (heap_pop batch_cmp heap))) = (Some t, h')"
  shows "loop_inv t h' unionb"
    and "entries_mset (mset (t # h')) h s = entries_mset (mset (topb # heap)) h s"
    and "covered (mset (t # h')) h = covered (mset (topb # heap)) h"
proof -
  obtain heap1 where p1: "heap_pop batch_cmp heap = (Some batch, heap1)"
    using heap_peek_pop[OF pk] by blast
  have m0: "mset heap = add_mset batch (mset heap1)" by (rule heap_pop_mset[OF p1])
  have sh: "set heap = insert batch (set heap1)"
    using arg_cong[OF m0, of set_mset] by simp
  have m1: "mset (t # h') = mset (split_push topb batch i heap1)"
    using heap_pop_mset[OF pop] by (simp add: p1)
  have s1: "set (split_push topb batch i heap1) = insert t (set h')"
    using arg_cong[OF m1, of set_mset] by simp
  have "\<forall>b\<in>set (split_push topb batch i heap1). wf_range (brange b) \<and> rfrom (brange topb) \<le> rfrom (brange b)"
    using inv sh by (intro split_wf[OF i]) (auto simp: loop_inv_def)
  then have all: "\<forall>b\<in>insert t (set h'). wf_range (brange b) \<and> rfrom (brange topb) \<le> rfrom (brange b)"
    unfolding s1 .
  have bu: "\<forall>u\<in>set unionb. before (brange u) (brange t)"
    using inv all by (auto simp: loop_inv_def before_def split: option.splits)
  have mn: "\<forall>y\<in>set h'. rfrom (brange t) \<le> rfrom (brange y)"
    using heap_pop_min[OF pop] s1 by (auto simp: p1)
  show "loop_inv t h' unionb"
    using inv all bu mn by (auto simp: loop_inv_def)
  show "entries_mset (mset (t # h')) h s = entries_mset (mset (topb # heap)) h s"
    unfolding m1 split_entries[OF i] by (simp add: m0)
  show "covered (mset (t # h')) h = covered (mset (topb # heap)) h"
    unfolding m1 split_covered[OF i] by (simp add: m0)
qed

lemma mergeLoop_correct:
  "loop_inv topb heap unionb \<Longrightarrow>
   \<exists>out. mergeLoop topb heap unionb = Inr out \<and>
         sorted_wrt before (map brange out) \<and>
         (\<forall>b\<in>set out. wf_range (brange b)) \<and>
         (\<forall>h s. entries_mset (mset out) h s = entries_mset (mset (unionb @ topb # heap)) h s) \<and>
         (\<forall>h. covered (mset out) h = covered (mset (unionb @ topb # heap)) h)"
proof (induction topb heap unionb rule: mergeLoop.induct)
  case (1 topb heap unionb)
  note inv = "1.prems"
  show ?case
  proof (cases "heap_peek batch_cmp heap")
    case None
    then have "heap = []" by (simp add: heap_peek_None)
    with None inv show ?thesis
      by (subst mergeLoop.simps) (auto simp: loop_inv_def sorted_wrt_append)
  next
    case (Some batch)
    obtain heap1 where p1: "heap_pop batch_cmp heap = (Some batch, heap1)"
      using heap_peek_pop[OF Some] by blast
    show ?thesis
    proof (cases "rangeIntersection (brange topb) (brange batch)")
      case None
      note st = emit_step[OF inv Some None p1]
      from "1.IH"(1)[OF Some None p1[symmetric] refl st(1)]
      obtain out where out: "mergeLoop batch heap1 (unionb @ [topb]) = Inr out"
        "sorted_wrt before (map brange out)" "\<forall>b\<in>set out. wf_range (brange b)"
        "\<forall>h s. entries_mset (mset out) h s = entries_mset (mset ((unionb @ [topb]) @ batch # heap1)) h s"
        "\<forall>h. covered (mset out) h = covered (mset ((unionb @ [topb]) @ batch # heap1)) h"
        by blast
      have "mergeLoop topb heap unionb = Inr out"
        by (subst mergeLoop.simps) (simp add: Some None p1 out(1))
      with out(2-5) show ?thesis by (simp add: st(2))
    next
      case (Some i)
      obtain x h' where pp: "heap_pop batch_cmp (split_push topb batch i (snd (heap_pop batch_cmp heap))) = (x, h')"
        by (cases "heap_pop batch_cmp (split_push topb batch i (snd (heap_pop batch_cmp heap)))")
      have "x \<noteq> None"
      proof
        assume "x = None"
        with pp have "split_push topb batch i (snd (heap_pop batch_cmp heap)) = []"
          by (simp add: heap_pop_None)
        then show False by (simp add: split_push_def heap_push_def)
      qed
      then obtain t where x: "x = Some t" by blast
      note st = split_step[OF inv \<open>heap_peek batch_cmp heap = Some batch\<close> Some pp[unfolded x]]
      from "1.IH"(2)[OF \<open>heap_peek batch_cmp heap = Some batch\<close> Some pp[symmetric] x st(1)]
      obtain out where out: "mergeLoop t h' unionb = Inr out"
        "sorted_wrt before (map brange out)" "\<forall>b\<in>set out. wf_range (brange b)"
        "\<forall>h s. entries_mset (mset out) h s = entries_mset (mset (unionb @ t # h')) h s"
        "\<forall>h. covered (mset out) h = covered (mset (unionb @ t # h')) h"
        by blast
      have "mergeLoop topb heap unionb = Inr out"
        by (subst mergeLoop.simps) (simp add: \<open>heap_peek batch_cmp heap = Some batch\<close> Some pp x out(1))
      moreover have "\<forall>h s. entries_mset (mset out) h s = entries_mset (mset (unionb @ topb # heap)) h s"
        using out(4) st(2) by simp
      moreover have "\<forall>h. covered (mset out) h = covered (mset (unionb @ topb # heap)) h"
        using out(5) st(3) by auto
      ultimately show ?thesis using out(2,3) by blast
    qed
  qed
qed

section \<open>mergeBatches and createBatches\<close>

definition mergeBatches :: "'h Batch list \<Rightarrow> sched_error + 'h Batch list" where
  "mergeBatches batches =
     (if length batches \<le> 1 then Inr batches
      else (case heap_pop batch_cmp (heap_init batches) of
              (None, heap) \<Rightarrow> Inl NotNullAssertion
            | (Some topb, heap) \<Rightarrow> mergeLoop topb heap []))"

lemma mergeBatches_correct:
  assumes wf: "\<forall>b\<in>set batches. wf_range (brange b)"
  shows "\<exists>out. mergeBatches batches = Inr out \<and>
         sorted_wrt before (map brange out) \<and>
         (\<forall>b\<in>set out. wf_range (brange b)) \<and>
         (\<forall>h s. entries_mset (mset out) h s = entries_mset (mset batches) h s) \<and>
         (\<forall>h. covered (mset out) h = covered (mset batches) h)"
proof (cases "length batches \<le> 1")
  case True
  then have "sorted_wrt before (map brange batches)"
    by (cases batches) auto
  with True wf show ?thesis by (simp add: mergeBatches_def)
next
  case False
  then have ne: "batches \<noteq> []" by auto
  obtain x heap where pp: "heap_pop batch_cmp batches = (x, heap)"
    by (cases "heap_pop batch_cmp batches")
  with ne obtain topb where x: "x = Some topb"
    by (cases x) (auto simp: heap_pop_None)
  note p = pp[unfolded x]
  have m: "mset batches = add_mset topb (mset heap)" by (rule heap_pop_mset[OF p])
  have sb: "set batches = insert topb (set heap)"
    using arg_cong[OF m, of set_mset] by simp
  have "loop_inv topb heap []"
    using wf heap_pop_min[OF p] sb by (auto simp: loop_inv_def)
  from mergeLoop_correct[OF this] False show ?thesis
    by (simp add: mergeBatches_def heap_init_def p m)
qed

text \<open>
  The hooks that \<open>createBatches\<close> reads. The interface \<open>Hooks\<close> is not among the sources;
  the fields are those the function uses: \<open>pre\<close>, \<open>post\<close>, \<open>event\<close>, \<open>extrinsic\<close> and
  \<open>evmLog\<close>, each hook with its optional \<open>range\<close> and its \<open>handler\<close>.
\<close>

record 'h BlockHook =
  bh_range :: "Range option"
  bh_handler :: 'h

record 'h EventHook =
  eh_range :: "Range option"
  eh_event :: QualifiedName
  eh_handler :: 'h

record 'h ExtrinsicHook =
  xh_range :: "Range option"
  xh_event :: QualifiedName
  xh_extrinsic :: QualifiedName
  xh_handler :: 'h

record 'h EvmLogHook =
  lh_range :: "Range option"
  lh_contractAddress :: EvmContractAddress
  lh_filter :: "EvmTopicSet list option"
  lh_handler :: 'h

record 'h Hooks =
  hooks_pre :: "'h BlockHook list"
  hooks_post :: "'h BlockHook list"
  hooks_event :: "'h EventHook list"
  hooks_extrinsic :: "'h ExtrinsicHook list"
  hooks_evmLog :: "'h EvmLogHook list"

text \<open>
  \<open>getRange\<close>: the range of the hook, or all heights from 0, clipped to the run range when
  there is one; \<open>None\<close> when nothing is left.
\<close>

definition default_range :: "Range option \<Rightarrow> Range" where
  "default_range r = (case r of Some x \<Rightarrow> x | None \<Rightarrow> \<lparr>rfrom = 0, rto = None\<rparr>)"

definition getRange :: "Range option \<Rightarrow> Range option \<Rightarrow> Range option" where
  "getRange blockRange hook_range =
     (let rng = default_range hook_range
      in case blockRange of
           Some br \<Rightarrow> rangeIntersection rng br
         | None \<Rightarrow> Some rng)"

text \<open>
The aggregate pushed for a hook of each kind.
\<close>

definition preHandlers :: "'h BlockHook \<Rightarrow> 'h DataHandlers" where
  "preHandlers hook =
     \<lparr>pre = [bh_handler hook], post = [], events = Map.empty, extrinsics = Map.empty,
      evmLogs = Map.empty\<rparr>"

definition postHandlers :: "'h BlockHook \<Rightarrow> 'h DataHandlers" where
  "postHandlers hook =
     \<lparr>pre = [], post = [bh_handler hook], events = Map.empty, extrinsics = Map.empty,
      evmLogs = Map.empty\<rparr>"

definition eventHandlers :: "'h EventHook \<Rightarrow> 'h DataHandlers" where
  "eventHandlers hook =
     \<lparr>pre = [], post = [], events = [eh_event hook \<mapsto> [eh_handler hook]],
      extrinsics = Map.empty, evmLogs = Map.empty\<rparr>"

definition extrinsicHandlers :: "'h ExtrinsicHook \<Rightarrow> 'h DataHandlers" where
  "extrinsicHandlers hook =
     \<lparr>pre = [], post = [], events = Map.empty,
      extrinsics = [xh_event hook \<mapsto> [xh_extrinsic hook \<mapsto> [xh_handler hook]]],
      evmLogs = Map.empty\<rparr>"

definition evmLogHandlers :: "'h EvmLogHook \<Rightarrow> 'h DataHandlers" where
  "evmLogHandlers hook =
     \<lparr>pre = [], post = [], events = Map.empty, extrinsics = Map.empty,
      evmLogs = [lh_contractAddress hook \<mapsto>
                   [\<lparr>entry_filter = lh_filter hook, entry_handler = lh_handler hook\<rparr>]]\<rparr>"

definition push_batch :: "Range option \<Rightarrow> Range option \<Rightarrow> 'h DataHandlers \<Rightarrow> 'h Batch list \<Rightarrow> 'h Batch list" where
  "push_batch blockRange hook_range hs batches =
     (case getRange blockRange hook_range of
        None \<Rightarrow> batches
      | Some rng \<Rightarrow> batches @ [\<lparr>brange = rng, handlers = hs\<rparr>])"

definition createBatches :: "'h Hooks \<Rightarrow> Range option \<Rightarrow> sched_error + 'h Batch list" where
  "createBatches hooks blockRange =
     (let batches = [];
          batches = fold (\<lambda>hook. push_batch blockRange (bh_range hook) (preHandlers hook)) (hooks_pre hooks) batches;
          batches = fold (\<lambda>hook. push_batch blockRange (bh_range hook) (postHandlers hook)) (hooks_post hooks) batches;
          batches = fold (\<lambda>hook. push_batch blockRange (eh_range hook) (eventHandlers hook)) (hooks_event hooks) batches;
          batches = fold (\<lambda>hook. push_batch blockRange (xh_range hook) (extrinsicHandlers hook)) (hooks_extrinsic hooks) batches;
          batches = fold (\<lambda>hook. push_batch blockRange (lh_range hook) (evmLogHandlers hook)) (hooks_evmLog hooks) batches
      in mergeBatches batches)"

text \<open>
  The registrations as the specification speaks of them: every hook with its range (the
  default applied) and its singleton aggregate, kind by kind in the order of
  registration; those that apply at a height inside the run range; and the batches they
  become before merging.
\<close>

definition registrations :: "'h Hooks \<Rightarrow> (Range \<times> 'h DataHandlers) list" where
  "registrations hooks =
     map (\<lambda>hook. (default_range (bh_range hook), preHandlers hook)) (hooks_pre hooks) @
     map (\<lambda>hook. (default_range (bh_range hook), postHandlers hook)) (hooks_post hooks) @
     map (\<lambda>hook. (default_range (eh_range hook), eventHandlers hook)) (hooks_event hooks) @
     map (\<lambda>hook. (default_range (xh_range hook), extrinsicHandlers hook)) (hooks_extrinsic hooks) @
     map (\<lambda>hook. (default_range (lh_range hook), evmLogHandlers hook)) (hooks_evmLog hooks)"

definition in_run :: "Range option \<Rightarrow> nat \<Rightarrow> bool" where
  "in_run blockRange h = (case blockRange of None \<Rightarrow> True | Some br \<Rightarrow> contains br h)"

definition registrations_at :: "'h Hooks \<Rightarrow> Range option \<Rightarrow> nat \<Rightarrow> (Range \<times> 'h DataHandlers) list" where
  "registrations_at hooks blockRange h =
     filter (\<lambda>(r, d). contains r h \<and> in_run blockRange h) (registrations hooks)"

definition clip :: "Range option \<Rightarrow> Range \<Rightarrow> Range option" where
  "clip blockRange r = (case blockRange of Some br \<Rightarrow> rangeIntersection r br | None \<Rightarrow> Some r)"

fun singletons :: "Range option \<Rightarrow> (Range \<times> 'h DataHandlers) list \<Rightarrow> 'h Batch list" where
  "singletons blockRange [] = []"
| "singletons blockRange ((r, d) # regs) =
     (case clip blockRange r of
        None \<Rightarrow> []
      | Some rng \<Rightarrow> [\<lparr>brange = rng, handlers = d\<rparr>]) @ singletons blockRange regs"

lemma singletons_append: "singletons br (xs @ ys) = singletons br xs @ singletons br ys"
  by (induction xs) auto

lemma fold_push_batch:
  "fold (\<lambda>hook. push_batch br (rg hook) (mk hook)) hs bs =
     bs @ singletons br (map (\<lambda>hook. (default_range (rg hook), mk hook)) hs)"
  by (induction hs arbitrary: bs)
     (auto simp: push_batch_def getRange_def clip_def split: option.splits)

lemma createBatches_singletons:
  "createBatches hooks br = mergeBatches (singletons br (registrations hooks))"
  by (simp add: createBatches_def Let_def fold_push_batch registrations_def singletons_append)

lemma clip_contains: "clip br r = Some x \<Longrightarrow> contains x h = (contains r h \<and> in_run br h)"
  by (auto simp: clip_def in_run_def contains_inter split: option.splits)

lemma clip_None: "clip br r = None \<Longrightarrow> \<not> (contains r h \<and> in_run br h)"
  by (auto simp: clip_def in_run_def dest: inter_None_disjoint split: option.splits)

lemma clip_wf: "clip br r = Some x \<Longrightarrow> wf_range r \<Longrightarrow> wf_range x"
  by (auto simp: clip_def dest: inter_Some split: option.splits)

lemma singletons_wf:
  "\<forall>(r, d)\<in>set regs. wf_range r \<Longrightarrow> \<forall>b\<in>set (singletons br regs). wf_range (brange b)"
proof (induction regs)
  case Nil
  show ?case by simp
next
  case (Cons x regs)
  obtain r d where x: "x = (r, d)" by (cases x)
  show ?case
    using Cons clip_wf[of br r]
    by (cases "clip br r") (auto simp: x)
qed

lemma singletons_entries:
  "entries_mset (mset (singletons br regs)) h s =
     mset (concat (map (\<lambda>(r, d). slot_entries d s)
                    (filter (\<lambda>(r, d). contains r h \<and> in_run br h) regs)))"
proof (induction regs)
  case Nil
  show ?case by simp
next
  case (Cons x regs)
  obtain r d where x: "x = (r, d)" by (cases x)
  show ?case
    using Cons.IH clip_contains[of br r _ h] clip_None[of br r h]
    by (cases "clip br r") (auto simp: x)
qed

lemma singletons_covered:
  "covered (mset (singletons br regs)) h = (\<exists>(r, d)\<in>set regs. contains r h \<and> in_run br h)"
proof (induction regs)
  case Nil
  show ?case by simp
next
  case (Cons x regs)
  obtain r d where x: "x = (r, d)" by (cases x)
  show ?case
    using Cons.IH clip_contains[of br r _ h] clip_None[of br r h]
    by (cases "clip br r") (auto simp: x)
qed

text \<open>
  The run range as a set, the invariant of the data model for all registered ranges, the
  batches of a list that contain a height, and the entries of a slot in the order of
  registration and as scheduled.
\<close>

definition run_set :: "Range option \<Rightarrow> nat set" where
  "run_set blockRange = {h. in_run blockRange h}"

definition wf_hooks :: "'h Hooks \<Rightarrow> bool" where
  "wf_hooks hooks = list_all (\<lambda>(r, d). wf_range r) (registrations hooks)"

definition batches_at :: "'h Batch list \<Rightarrow> nat \<Rightarrow> 'h Batch list" where
  "batches_at out h = filter (\<lambda>b. contains (brange b) h) out"

definition registered_entries :: "'h Hooks \<Rightarrow> Range option \<Rightarrow> nat \<Rightarrow> slot \<Rightarrow> ('h + 'h EvmLogEntry) list" where
  "registered_entries hooks blockRange h s =
     concat (map (\<lambda>(r, d). slot_entries d s) (registrations_at hooks blockRange h))"

definition scheduled_entries :: "'h Hooks \<Rightarrow> Range option \<Rightarrow> nat \<Rightarrow> slot \<Rightarrow> ('h + 'h EvmLogEntry) list list" where
  "scheduled_entries hooks blockRange h s =
     (case createBatches hooks blockRange of
        Inl e \<Rightarrow> []
      | Inr out \<Rightarrow> map (\<lambda>b. slot_entries (handlers b) s) (batches_at out h))"

lemma before_disjoint: "before a b \<Longrightarrow> range_set a \<inter> range_set b = {}"
  by (auto simp: before_def range_set_def contains_def split: option.splits)

lemma before_from: "before a b \<Longrightarrow> wf_range a \<Longrightarrow> rfrom a \<le> rfrom b"
  by (auto simp: before_def wf_range_def split: option.splits)

lemma wf_nonempty: "wf_range r \<Longrightarrow> contains r (rfrom r)"
  by (auto simp: wf_range_def contains_def split: option.splits)

lemma entries_mset_member:
  assumes "b \<in># M" "contains (brange b) h"
  shows "mset (slot_entries (handlers b) s) \<subseteq># entries_mset M h s"
proof -
  from assms(1) obtain M' where "M = add_mset b M'" by (rule multi_member_split[elim_format]) blast
  with assms(2) show ?thesis by simp
qed

lemma entries_mset_filter:
  "entries_mset (mset out) h s =
     sum_list (map (\<lambda>b. mset (slot_entries (handlers b) s)) (batches_at out h))"
  by (induction out) (auto simp: batches_at_def)

lemma covered_filter: "covered (mset out) h = (batches_at out h \<noteq> [])"
  by (induction out) (auto simp: batches_at_def)

lemma disjoint_unique:
  "sorted_wrt (\<lambda>a b. range_set (brange a) \<inter> range_set (brange b) = {}) out \<Longrightarrow>
   length (batches_at out h) \<le> 1"
proof (induction out)
  case Nil
  show ?case by (simp add: batches_at_def)
next
  case (Cons b out)
  show ?case
  proof (cases "contains (brange b) h")
    case True
    have "batches_at out h = []"
      using Cons.prems True by (auto simp: batches_at_def filter_empty_conv range_set_def)
    with True show ?thesis by (simp add: batches_at_def)
  next
    case False
    with Cons show ?thesis by (simp add: batches_at_def)
  qed
qed

lemma createBatches_correct:
  assumes "wf_hooks hooks"
  shows "\<exists>out. createBatches hooks br = Inr out \<and>
         sorted_wrt before (map brange out) \<and>
         (\<forall>b\<in>set out. wf_range (brange b)) \<and>
         (\<forall>h s. entries_mset (mset out) h s = mset (registered_entries hooks br h s)) \<and>
         (\<forall>h. covered (mset out) h = (registrations_at hooks br h \<noteq> []))"
proof -
  have wf: "\<forall>(r, d)\<in>set (registrations hooks). wf_range r"
    using assms by (simp add: wf_hooks_def list_all_iff)
  from mergeBatches_correct[OF singletons_wf[OF wf, of br]]
  show ?thesis
    unfolding createBatches_singletons singletons_entries singletons_covered
      registered_entries_def registrations_at_def
    by (auto simp: filter_empty_conv)
qed

section \<open>The schedule: sorted, disjoint, covering, with the right handlers\<close>

text \<open>
  Registrations to run the scheduler on: two handlers of one event whose ranges overlap
  in part, two handlers of one event of which the first starts later, and three batches
  that are already disjoint.
\<close>

definition order_hooks :: "nat Hooks" where
  "order_hooks =
     \<lparr>hooks_pre = [], hooks_post = [],
      hooks_event =
        [\<lparr>eh_range = Some \<lparr>rfrom = 5, rto = None\<rparr>, eh_event = ''Balances.Transfer'', eh_handler = 1\<rparr>,
         \<lparr>eh_range = None, eh_event = ''Balances.Transfer'', eh_handler = 2\<rparr>],
      hooks_extrinsic = [], hooks_evmLog = []\<rparr>"

definition overlap_hooks :: "nat Hooks" where
  "overlap_hooks =
     \<lparr>hooks_pre = [], hooks_post = [],
      hooks_event =
        [\<lparr>eh_range = Some \<lparr>rfrom = 0, rto = Some 99\<rparr>, eh_event = ''Balances.Transfer'', eh_handler = 1\<rparr>,
         \<lparr>eh_range = Some \<lparr>rfrom = 50, rto = Some 150\<rparr>, eh_event = ''Balances.Transfer'', eh_handler = 2\<rparr>],
      hooks_extrinsic = [], hooks_evmLog = []\<rparr>"

definition disjoint_batches :: "nat Batch list" where
  "disjoint_batches =
     [\<lparr>brange = \<lparr>rfrom = 0, rto = Some 9\<rparr>, handlers = preHandlers \<lparr>bh_range = None, bh_handler = 1\<rparr>\<rparr>,
      \<lparr>brange = \<lparr>rfrom = 10, rto = Some 19\<rparr>, handlers = postHandlers \<lparr>bh_range = None, bh_handler = 2\<rparr>\<rparr>,
      \<lparr>brange = \<lparr>rfrom = 30, rto = None\<rparr>, handlers = preHandlers \<lparr>bh_range = None, bh_handler = 3\<rparr>\<rparr>]"

lemma heap_extract_sorted:
  assumes "\<And>a b. (cmp a b \<le> 0) = (key a \<le> (key b :: nat))"
  shows "sorted (map key (x # xs)) \<Longrightarrow> heap_extract cmp x xs = (x, xs)"
proof (cases xs)
  case Nil
  then show ?thesis by simp
next
  case (Cons y ys)
  assume s: "sorted (map key (x # xs))"
  obtain m rest where e: "heap_extract cmp y ys = (m, rest)" by (cases "heap_extract cmp y ys")
  from heap_extract_mset[OF e] have "m \<in> set (y # ys)"
    by (metis set_mset_mset union_single_eq_member)
  with s Cons have "key x \<le> key m" by auto
  with e Cons show ?thesis by (simp add: assms)
qed

lemma heap_pop_sorted:
  "sorted (map (\<lambda>b. rfrom (brange b)) (x # xs)) \<Longrightarrow> heap_pop batch_cmp (x # xs) = (Some x, xs)"
  using heap_extract_sorted[of batch_cmp "\<lambda>b. rfrom (brange b)" x xs, OF batch_cmp_le]
  by (simp add: heap_pop_def)

lemma disjoint_inter_None:
  "range_set a \<inter> range_set b = {} \<Longrightarrow> rangeIntersection a b = None"
proof (rule ccontr)
  assume d: "range_set a \<inter> range_set b = {}" and "rangeIntersection a b \<noteq> None"
  then obtain i where i: "rangeIntersection a b = Some i" by blast
  from inter_Some[OF i] have "wf_range i" by simp
  then have "contains i (rfrom i)" by (rule wf_nonempty)
  with contains_inter[OF i] d show False by (auto simp: range_set_def)
qed

lemma mergeLoop_sorted:
  "sorted (map (\<lambda>b. rfrom (brange b)) (t # heap)) \<Longrightarrow>
   sorted_wrt (\<lambda>a b. range_set (brange a) \<inter> range_set (brange b) = {}) (t # heap) \<Longrightarrow>
   mergeLoop t heap u = Inr (u @ t # heap)"
proof (induction heap arbitrary: t u)
  case Nil
  show ?case by (subst mergeLoop.simps) (simp add: heap_peek_def heap_pop_def)
next
  case (Cons y ys)
  have p: "heap_pop batch_cmp (y # ys) = (Some y, ys)"
    using Cons.prems(1) by (intro heap_pop_sorted) simp
  have n: "rangeIntersection (brange t) (brange y) = None"
    using Cons.prems(2) by (intro disjoint_inter_None) simp
  have "mergeLoop y ys (u @ [t]) = Inr ((u @ [t]) @ y # ys)"
    using Cons.prems by (intro Cons.IH) auto
  then show ?case
    by (subst mergeLoop.simps) (simp add: heap_peek_def p n)
qed

text \<open>
  Claim C1. For every list of registrations whose ranges are ranges of the data model
  (\<open>from \<le> to\<close> when \<open>to\<close> is present) and every optional run range, \<open>createBatches\<close>
  (which ends with \<open>mergeBatches\<close>) returns a batch list, never the failed assertion,
  and the list is sorted by ascending \<open>from\<close>, pairwise non-overlapping, its ranges cover
  exactly the union of the registrations' ranges intersected with the run range, every
  batch has a non-empty range, and every handler entry of a batch comes from a
  registration whose clipped range is not empty.
\<close>

theorem createBatches_partition:
  assumes "wf_hooks hooks"
  shows "\<exists>out. createBatches hooks blockRange = Inr out \<and>
           sorted (map (\<lambda>b. rfrom (brange b)) out) \<and>
           sorted_wrt (\<lambda>a b. range_set (brange a) \<inter> range_set (brange b) = {}) out \<and>
           (\<Union>b\<in>set out. range_set (brange b)) =
             (\<Union>(r, d)\<in>set (registrations hooks). range_set r) \<inter> run_set blockRange \<and>
           (\<forall>b\<in>set out. range_set (brange b) \<noteq> {}) \<and>
           (\<forall>b\<in>set out. \<forall>s. \<forall>e\<in>set (slot_entries (handlers b) s).
              \<exists>(r, d)\<in>set (registrations hooks).
                 range_set r \<inter> run_set blockRange \<noteq> {} \<and> e \<in> set (slot_entries d s))"
proof -
  from createBatches_correct[OF assms, of blockRange]
  obtain out where out: "createBatches hooks blockRange = Inr out"
    and sep: "sorted_wrt before (map brange out)"
    and wf: "\<forall>b\<in>set out. wf_range (brange b)"
    and ent: "\<And>h s. entries_mset (mset out) h s = mset (registered_entries hooks blockRange h s)"
    and cov: "\<And>h. covered (mset out) h = (registrations_at hooks blockRange h \<noteq> [])"
    by blast
  have sep': "sorted_wrt (\<lambda>a b. before (brange a) (brange b)) out"
    using sep by (simp add: sorted_wrt_map)
  have s1: "sorted (map (\<lambda>b. rfrom (brange b)) out)"
    unfolding sorted_map
    by (rule sorted_wrt_mono_rel[OF _ sep']) (use wf in \<open>auto intro: before_from\<close>)
  have s2: "sorted_wrt (\<lambda>a b. range_set (brange a) \<inter> range_set (brange b) = {}) out"
    by (rule sorted_wrt_mono_rel[OF _ sep']) (rule before_disjoint)
  have s3: "(\<Union>b\<in>set out. range_set (brange b)) =
             (\<Union>(r, d)\<in>set (registrations hooks). range_set r) \<inter> run_set blockRange"
  proof (rule set_eqI)
    fix h
    have "h \<in> (\<Union>b\<in>set out. range_set (brange b)) \<longleftrightarrow> covered (mset out) h"
      by (auto simp: covered_def range_set_def)
    also have "\<dots> \<longleftrightarrow> registrations_at hooks blockRange h \<noteq> []" by (rule cov)
    also have "\<dots> \<longleftrightarrow> h \<in> (\<Union>(r, d)\<in>set (registrations hooks). range_set r) \<inter> run_set blockRange"
      by (auto simp: registrations_at_def filter_empty_conv range_set_def run_set_def)
    finally show "h \<in> (\<Union>b\<in>set out. range_set (brange b)) \<longleftrightarrow>
                  h \<in> (\<Union>(r, d)\<in>set (registrations hooks). range_set r) \<inter> run_set blockRange" .
  qed
  have s4: "\<forall>b\<in>set out. range_set (brange b) \<noteq> {}"
    using wf wf_nonempty by (auto simp: range_set_def)
  have s5: "\<forall>b\<in>set out. \<forall>s. \<forall>e\<in>set (slot_entries (handlers b) s).
              \<exists>(r, d)\<in>set (registrations hooks).
                 range_set r \<inter> run_set blockRange \<noteq> {} \<and> e \<in> set (slot_entries d s)"
  proof (intro ballI allI)
    fix b s e assume b: "b \<in> set out" and e: "e \<in> set (slot_entries (handlers b) s)"
    let ?h = "rfrom (brange b)"
    have c: "contains (brange b) ?h" using wf b wf_nonempty by blast
    have "mset (slot_entries (handlers b) s) \<subseteq># mset (registered_entries hooks blockRange ?h s)"
      using entries_mset_member[of b "mset out" ?h s] b c by (simp add: ent)
    then have "e \<in> set (registered_entries hooks blockRange ?h s)"
      using e by (metis mset_subset_eqD set_mset_mset)
    then obtain r d where "(r, d) \<in> set (registrations hooks)" "contains r ?h"
      "in_run blockRange ?h" "e \<in> set (slot_entries d s)"
      by (auto simp: registered_entries_def registrations_at_def)
    then show "\<exists>(r, d)\<in>set (registrations hooks).
                 range_set r \<inter> run_set blockRange \<noteq> {} \<and> e \<in> set (slot_entries d s)"
      by (auto simp: range_set_def run_set_def)
  qed
  from out s1 s2 s3 s4 s5 show ?thesis by blast
qed

theorem createBatches_partition_witness:
  "wf_hooks overlap_hooks \<and>
   (\<exists>out. createBatches overlap_hooks None = Inr out \<and>
           map brange out =
             [\<lparr>rfrom = 0, rto = Some 49\<rparr>, \<lparr>rfrom = 50, rto = Some 99\<rparr>,
              \<lparr>rfrom = 100, rto = Some 150\<rparr>] \<and>
           sorted (map (\<lambda>b. rfrom (brange b)) out) \<and>
           sorted_wrt (\<lambda>a b. range_set (brange a) \<inter> range_set (brange b) = {}) out \<and>
           (\<Union>b\<in>set out. range_set (brange b)) =
             (\<Union>(r, d)\<in>set (registrations overlap_hooks). range_set r) \<inter> run_set None \<and>
           (\<forall>b\<in>set out. range_set (brange b) \<noteq> {}))"
proof -
  have h: "wf_hooks overlap_hooks" by code_simp
  have v: "(case createBatches overlap_hooks None of Inl e \<Rightarrow> [] | Inr out \<Rightarrow> map brange out) =
             [\<lparr>rfrom = 0, rto = Some 49\<rparr>, \<lparr>rfrom = 50, rto = Some 99\<rparr>,
              \<lparr>rfrom = 100, rto = Some 150\<rparr>]"
    by code_simp
  from createBatches_partition[OF h, of None] obtain out where
    out: "createBatches overlap_hooks None = Inr out"
      "sorted (map (\<lambda>b. rfrom (brange b)) out)"
      "sorted_wrt (\<lambda>a b. range_set (brange a) \<inter> range_set (brange b) = {}) out"
      "(\<Union>b\<in>set out. range_set (brange b)) =
         (\<Union>(r, d)\<in>set (registrations overlap_hooks). range_set r) \<inter> run_set None"
      "\<forall>b\<in>set out. range_set (brange b) \<noteq> {}"
    by blast
  from v out(1) have m: "map brange out =
             [\<lparr>rfrom = 0, rto = Some 49\<rparr>, \<lparr>rfrom = 50, rto = Some 99\<rparr>,
              \<lparr>rfrom = 100, rto = Some 150\<rparr>]"
    by simp
  show ?thesis
    by (intro conjI exI[of _ out]) (rule h out m)+
qed

text \<open>
  Claim C2, as amended. For every list of registrations with well-formed ranges, every
  optional run range and every height \<open>h\<close>: at most one scheduled batch contains \<open>h\<close>;
  there is none exactly when no registration applies at \<open>h\<close>; and the handler entries of
  that batch are, slot by slot and key by key, the entries of exactly the registrations
  whose range contains \<open>h\<close> inside the run range, each as often as it was registered.
  The order of the entries within a slot is the order in which the sweep merged the
  batches, which need not be the order of registration (see the counterexample).
\<close>

theorem createBatches_handlers_at:
  assumes "wf_hooks hooks"
  shows "(case createBatches hooks blockRange of
            Inl e \<Rightarrow> False
          | Inr out \<Rightarrow>
              (case batches_at out h of
                 [] \<Rightarrow> registrations_at hooks blockRange h = []
               | [b] \<Rightarrow> registrations_at hooks blockRange h \<noteq> [] \<and>
                        (\<forall>s. mset (slot_entries (handlers b) s) =
                               mset (registered_entries hooks blockRange h s))
               | _ \<Rightarrow> False))"
proof -
  from createBatches_correct[OF assms(1), of blockRange]
  obtain out where out: "createBatches hooks blockRange = Inr out"
    and sep: "sorted_wrt before (map brange out)"
    and ent: "\<And>h s. entries_mset (mset out) h s = mset (registered_entries hooks blockRange h s)"
    and cov: "\<And>h. covered (mset out) h = (registrations_at hooks blockRange h \<noteq> [])"
    by blast
  have "sorted_wrt (\<lambda>a b. before (brange a) (brange b)) out"
    using sep by (simp add: sorted_wrt_map)
  then have "sorted_wrt (\<lambda>a b. range_set (brange a) \<inter> range_set (brange b) = {}) out"
    by (rule sorted_wrt_mono_rel[rotated]) (rule before_disjoint)
  from disjoint_unique[OF this, of h]
  consider "batches_at out h = []" | b where "batches_at out h = [b]"
    by (cases "batches_at out h" rule: list.exhaust; cases "tl (batches_at out h)"; auto)
  then show ?thesis
  proof cases
    case 1
    then show ?thesis using cov[of h] by (simp add: out covered_filter)
  next
    case 2
    then show ?thesis
      using cov[of h] ent[of h] by (simp add: out covered_filter entries_mset_filter)
  qed
qed

theorem createBatches_handlers_at_witness:
  "wf_hooks overlap_hooks \<and>
   (case createBatches overlap_hooks None of
      Inl e \<Rightarrow> False
    | Inr out \<Rightarrow>
        (case batches_at out 60 of
           [] \<Rightarrow> registrations_at overlap_hooks None 60 = []
         | [b] \<Rightarrow> registrations_at overlap_hooks None 60 \<noteq> [] \<and>
                  (\<forall>s. mset (slot_entries (handlers b) s) =
                         mset (registered_entries overlap_hooks None 60 s))
         | _ \<Rightarrow> False))"
proof -
  have h: "wf_hooks overlap_hooks" by code_simp
  from h createBatches_handlers_at[OF h, of None 60] show ?thesis by (rule conjI)
qed

text \<open>
  Claim C2 as stated fails. Two handlers are registered for the same event, the first
  from height 5 on, the second for all heights. At height 7 the scheduled batch lists
  the second handler before the first, while the registrations in registration order
  list the first before the second.
\<close>

theorem createBatches_handlers_order_counterexample:
  "scheduled_entries order_hooks None 7 (EventSlot ''Balances.Transfer'') = [[Inl 2, Inl 1]] \<and>
   registered_entries order_hooks None 7 (EventSlot ''Balances.Transfer'') = [Inl 1, Inl 2]"
  by code_simp

text \<open>
  Claim C8. \<open>mergeBatches\<close> returns a list of zero or one batches unchanged, and it
  returns every batch list that is sorted by \<open>from\<close> and pairwise non-overlapping
  unchanged (the same batches in the same order, hence the same ranges).
\<close>

theorem mergeBatches_idempotent:
  "(length batches \<le> 1 \<longrightarrow> mergeBatches batches = Inr batches) \<and>
   (sorted (map (\<lambda>b. rfrom (brange b)) batches) \<and>
    sorted_wrt (\<lambda>a b. range_set (brange a) \<inter> range_set (brange b) = {}) batches
      \<longrightarrow> mergeBatches batches = Inr batches)"
proof (intro conjI impI)
  assume "length batches \<le> 1"
  then show "mergeBatches batches = Inr batches" by (simp add: mergeBatches_def)
next
  assume a: "sorted (map (\<lambda>b. rfrom (brange b)) batches) \<and>
    sorted_wrt (\<lambda>a b. range_set (brange a) \<inter> range_set (brange b) = {}) batches"
  show "mergeBatches batches = Inr batches"
  proof (cases batches)
    case Nil
    then show ?thesis by (simp add: mergeBatches_def)
  next
    case (Cons x xs)
    with a have p: "heap_pop batch_cmp (x # xs) = (Some x, xs)"
      by (intro heap_pop_sorted) simp
    from a Cons have "mergeLoop x xs [] = Inr ([] @ x # xs)"
      by (intro mergeLoop_sorted) auto
    with Cons p show ?thesis by (simp add: mergeBatches_def heap_init_def)
  qed
qed

theorem mergeBatches_idempotent_witness:
  "length [hd disjoint_batches] \<le> 1 \<and>
   mergeBatches [hd disjoint_batches] = Inr [hd disjoint_batches] \<and>
   sorted (map (\<lambda>b. rfrom (brange b)) disjoint_batches) \<and>
   sorted_wrt (\<lambda>a b. range_set (brange a) \<inter> range_set (brange b) = {}) disjoint_batches \<and>
   mergeBatches disjoint_batches = Inr disjoint_batches"
proof -
  have s: "sorted (map (\<lambda>b. rfrom (brange b)) disjoint_batches)"
    by (simp add: disjoint_batches_def)
  have d: "sorted_wrt (\<lambda>a b. range_set (brange a) \<inter> range_set (brange b) = {}) disjoint_batches"
    by (auto simp: disjoint_batches_def range_set_def contains_def)
  show ?thesis
    using s d mergeBatches_idempotent[of disjoint_batches]
      mergeBatches_idempotent[of "[hd disjoint_batches]"]
    by simp
qed

section \<open>Blocks, items and the handlers of the dispatch engine\<close>

text \<open>
  An event of the unified log. \<open>args\<close> is untyped in the source; the record keeps the
  parts of it the engine reads. An \<open>EVM.Log\<close> event carries its log either directly in
  \<open>args\<close> or under \<open>args.log\<close>, so each of \<open>args.address\<close>, \<open>args.log\<close> and
  \<open>args.topics\<close> may be missing: \<open>args_log\<close> is \<open>None\<close> without \<open>args.log\<close>, \<open>Some None\<close>
  when \<open>args.log\<close> has no address, and \<open>args_topics\<close> is \<open>None\<close> without \<open>args.topics\<close>.
  The other fields are \<open>args.contract\<close>, \<open>args.destination\<close> and \<open>args.message.source\<close>.
\<close>

record SubstrateEvent =
  event_name :: QualifiedName
  event_id :: string
  args_address :: "string option"
  args_log :: "string option option"
  args_topics :: "string list option"
  args_contract :: string
  args_destination :: string
  args_message_source :: string

record SubstrateCall =
  call_name :: QualifiedName
  call_id :: string
  call_success :: bool

text \<open>
  An item is tagged \<open>event\<close> or \<open>call\<close>; any other tag reaches the \<open>default\<close> branch of
  the dispatch switch.
\<close>

datatype Item = EventItem SubstrateEvent | CallItem SubstrateCall | OtherItem string

record BlockHeader =
  height :: nat
  hash :: string

record BlockData =
  header :: BlockHeader
  items :: "Item list"

text \<open>
  Modelled from the spec: the class \<open>DataHandlers\<close> of \<open>batch/handlers\<close>, which is not among
  the sources. The fields are those the engine reads: the unkeyed slots \<open>pre\<close> and \<open>post\<close>,
  the maps from a qualified name (or \<open>*\<close>) to event and call handlers, the latter with the
  flag for failed calls, and one map per specialised kind, keyed by contract address or
  program id. This aggregate is the one of the dispatch engine; the scheduler above has
  its own, older one.
\<close>

record ('h, 'd) HandlerList =
  hl_handlers :: "'h list"
  hl_data :: "'d option"

record 'h CallHandlerEntry =
  ce_handler :: 'h
  triggerForFailedCalls :: "bool option"

record ('h, 'd) ProcessorHandlers =
  dh_pre :: "('h, 'd) HandlerList"
  dh_post :: "('h, 'd) HandlerList"
  dh_events :: "QualifiedName \<rightharpoonup> ('h, 'd) HandlerList"
  dh_calls :: "QualifiedName \<rightharpoonup> ('h CallHandlerEntry, 'd) HandlerList"
  dh_evmLogs :: "EvmContractAddress \<rightharpoonup> 'h EvmLogEntry list"
  dh_contractsContractEmitted :: "string \<rightharpoonup> ('h, 'd) HandlerList"
  dh_gearMessageEnqueued :: "string \<rightharpoonup> ('h, 'd) HandlerList"
  dh_gearUserMessageSent :: "string \<rightharpoonup> ('h, 'd) HandlerList"

text \<open>
  What can be thrown while a batch is processed: whatever a handler throws, the failed
  \<open>assertNotNull\<close> on a log without an address, the \<open>TypeError\<close> of reading a property
  of \<open>undefined\<close>, the unexpected item kind, the failed \<open>assert\<close> on the watermark, and
  an error decorated with the height and hash of the block in which it was thrown.
\<close>

datatype 'e Error =
    HandlerError 'e
  | NotNullError
  | TypeError
  | UnexpectedCase
  | AssertionError
  | WithContext nat string "'e Error"

text \<open>
  Handlers are callbacks. The model keeps which handler is called, for which hook, in
  which block and with which payload; what the call does to the store, and whether it
  throws, is the parameter \<open>exec\<close> of the engine.
\<close>

datatype Hook = HookPre | HookPost | HookEvent | HookEvmLog | HookContractEmitted
  | HookGearMessageEnqueued | HookGearMessageSent | HookCall

datatype Payload = Items "Item list" | Event SubstrateEvent | Call SubstrateCall

record 'h Invocation =
  inv_hook :: Hook
  inv_handler :: 'h
  inv_block :: BlockHeader
  inv_payload :: Payload

type_synonym ('h, 'e, 's) exec = "'h Invocation \<Rightarrow> 's \<Rightarrow> 'e + 's"

definition invoke :: "('h, 'e, 's) exec \<Rightarrow> Hook \<Rightarrow> BlockHeader \<Rightarrow> Payload \<Rightarrow> 'h \<Rightarrow> 's \<Rightarrow> 'e Error + 's" where
  "invoke exec hook block payload handler store =
     (case exec \<lparr>inv_hook = hook, inv_handler = handler, inv_block = block, inv_payload = payload\<rparr> store of
        Inl e \<Rightarrow> Inl (HandlerError e)
      | Inr store' \<Rightarrow> Inr store')"

text \<open>
A \<open>for\<close> loop over a list whose body may throw: the first error ends the loop.
\<close>

fun for_each :: "('a \<Rightarrow> 's \<Rightarrow> 'x + 's) \<Rightarrow> 'a list \<Rightarrow> 's \<Rightarrow> 'x + 's" where
  "for_each body [] store = Inr store"
| "for_each body (x # xs) store =
     (case body x store of
        Inl e \<Rightarrow> Inl e
      | Inr store' \<Rightarrow> for_each body xs store')"

definition handlers_of :: "('k \<rightharpoonup> ('h, 'd) HandlerList) \<Rightarrow> 'k \<Rightarrow> 'h list" where
  "handlers_of m key = (case m key of None \<Rightarrow> [] | Some hs \<Rightarrow> hl_handlers hs)"

definition getEventHandlers :: "('h, 'd) ProcessorHandlers \<Rightarrow> SubstrateEvent \<Rightarrow> 'h list" where
  "getEventHandlers hs event =
     handlers_of (dh_events hs) ''*'' @ handlers_of (dh_events hs) (event_name event)"

definition getCallHandlers :: "('h, 'd) ProcessorHandlers \<Rightarrow> SubstrateCall \<Rightarrow> 'h CallHandlerEntry list" where
  "getCallHandlers hs call =
     handlers_of (dh_calls hs) ''*'' @ handlers_of (dh_calls hs) (call_name call)"

text \<open>
  \<open>log.args.topics[i]\<close>: reading the index throws when the event has no \<open>args.topics\<close>;
  beyond the end of the array the value is \<open>undefined\<close>, with which \<open>includes\<close> and
  \<open>!==\<close> then compare a topic of the filter.
\<close>

definition topic_at :: "string list \<Rightarrow> nat \<Rightarrow> string option" where
  "topic_at topics i = (if i < length topics then Some (topics ! i) else None)"

definition read_topic :: "SubstrateEvent \<Rightarrow> nat \<Rightarrow> 'e Error + string option" where
  "read_topic log i =
     (case args_topics log of
        None \<Rightarrow> Inl TypeError
      | Some topics \<Rightarrow> Inr (topic_at topics i))"

definition topics_include :: "string list \<Rightarrow> string option \<Rightarrow> bool" where
  "topics_include lits x = (case x of None \<Rightarrow> False | Some t \<Rightarrow> t \<in> set lits)"

text \<open>
  The loop of \<open>evmHandlerMatches\<close> from position \<open>i\<close> of the filter: an absent entry is
  skipped without reading the log; a list or a single topic reads \<open>log.args.topics[i]\<close>.
\<close>

function matches_from :: "EvmTopicSet list \<Rightarrow> SubstrateEvent \<Rightarrow> nat \<Rightarrow> 'e Error + bool" where
  "matches_from flt log i =
     (if i < length flt then
        (case flt ! i of
           TopicAny \<Rightarrow> matches_from flt log (i + 1)
         | TopicMany lits \<Rightarrow>
             (case read_topic log i of
                Inl e \<Rightarrow> Inl e
              | Inr t \<Rightarrow>
                  if \<not> topics_include lits t then Inr False
                  else matches_from flt log (i + 1))
         | TopicOne lit \<Rightarrow>
             (case read_topic log i of
                Inl e \<Rightarrow> Inl e
              | Inr t \<Rightarrow>
                  if Some lit \<noteq> t then Inr False
                  else matches_from flt log (i + 1)))
      else Inr True)"
  by pat_completeness auto
termination
  by (relation "measure (\<lambda>(flt, log, i). length flt - i)") auto

declare matches_from.simps [simp del]

definition evmHandlerMatches :: "'h EvmLogEntry \<Rightarrow> SubstrateEvent \<Rightarrow> 'e Error + bool" where
  "evmHandlerMatches handler log =
     (case entry_filter handler of
        None \<Rightarrow> Inr True
      | Some flt \<Rightarrow> matches_from flt log 0)"

text \<open>
  \<open>assertNotNull(log.args.address || log.args.log.address)\<close>: an empty \<open>args.address\<close> is
  falsy; reading the address of a missing \<open>args.log\<close> throws, and so does \<open>assertNotNull\<close>
  when \<open>args.log\<close> has no address.
\<close>

definition evm_contract_address :: "SubstrateEvent \<Rightarrow> 'e Error + string" where
  "evm_contract_address log =
     (let nested = (case args_log log of
                      None \<Rightarrow> Inl TypeError
                    | Some None \<Rightarrow> Inl NotNullError
                    | Some (Some a) \<Rightarrow> Inr a)
      in case args_address log of
           Some a \<Rightarrow> if a \<noteq> [] then Inr a else nested
         | None \<Rightarrow> nested)"

text \<open>
  The generators of the engine are lists here: the handlers in the order in which they
  are yielded. \<open>getEvmLogHandlers\<close> can throw while it is consumed, after the handlers
  yielded so far have run, so its list holds, in the order of the generator, a handler
  (\<open>Inr\<close>) for each \<open>yield\<close> and the error (\<open>Inl\<close>) at which it ends, if it throws.
  \<open>yield_matching\<close> is its loop over the handlers of the contract.
\<close>

fun yield_matching :: "'h EvmLogEntry list \<Rightarrow> SubstrateEvent \<Rightarrow> ('e Error + 'h) list" where
  "yield_matching [] log = []"
| "yield_matching (h # contractHandlers) log =
     (case evmHandlerMatches h log of
        Inl e \<Rightarrow> [Inl e]
      | Inr matches \<Rightarrow>
          if matches then Inr (entry_handler h) # yield_matching contractHandlers log
          else yield_matching contractHandlers log)"

definition getEvmLogHandlers :: "(EvmContractAddress \<rightharpoonup> 'h EvmLogEntry list) \<Rightarrow> SubstrateEvent \<Rightarrow> ('e Error + 'h) list" where
  "getEvmLogHandlers logs event =
     (if event_name event \<noteq> ''EVM.Log'' then []
      else (case evm_contract_address event of
              Inl e \<Rightarrow> [Inl e]
            | Inr contractAddress \<Rightarrow>
                (case logs contractAddress of
                   None \<Rightarrow> []
                 | Some contractHandlers \<Rightarrow> yield_matching contractHandlers event)))"

definition getContractEmittedHandlers :: "('h, 'd) ProcessorHandlers \<Rightarrow> SubstrateEvent \<Rightarrow> 'h list" where
  "getContractEmittedHandlers hs event =
     (if event_name event \<noteq> ''Contracts.ContractEmitted'' then []
      else handlers_of (dh_contractsContractEmitted hs) (args_contract event))"

definition getGearMessageEnqueuedHandlers :: "('h, 'd) ProcessorHandlers \<Rightarrow> SubstrateEvent \<Rightarrow> 'h list" where
  "getGearMessageEnqueuedHandlers hs event =
     (if event_name event \<noteq> ''Gear.MessageEnqueued'' then []
      else handlers_of (dh_gearMessageEnqueued hs) (args_destination event))"

definition getGearUserMessageSentHandlers :: "('h, 'd) ProcessorHandlers \<Rightarrow> SubstrateEvent \<Rightarrow> 'h list" where
  "getGearUserMessageSentHandlers hs event =
     (if event_name event \<noteq> ''Gear.UserMessageSent'' then []
      else handlers_of (dh_gearUserMessageSent hs) (args_message_source event))"

definition truthy :: "bool option \<Rightarrow> bool" where
  "truthy flag = (flag = Some True)"

definition processItem :: "('h, 'e, 's) exec \<Rightarrow> ('h, 'd) ProcessorHandlers \<Rightarrow> BlockHeader \<Rightarrow> Item \<Rightarrow> 's \<Rightarrow> 'e Error + 's" where
  "processItem exec hs block item store =
     (case item of
        EventItem event \<Rightarrow>
          (case for_each (invoke exec HookEvent block (Event event)) (getEventHandlers hs event) store of
             Inl e \<Rightarrow> Inl e
           | Inr s1 \<Rightarrow>
          (case for_each
                  (\<lambda>yielded s.
                     case yielded of
                       Inl e \<Rightarrow> Inl e
                     | Inr handler \<Rightarrow> invoke exec HookEvmLog block (Event event) handler s)
                  (getEvmLogHandlers (dh_evmLogs hs) event) s1 of
             Inl e \<Rightarrow> Inl e
           | Inr s2 \<Rightarrow>
          (case for_each (invoke exec HookContractEmitted block (Event event))
                  (getContractEmittedHandlers hs event) s2 of
             Inl e \<Rightarrow> Inl e
           | Inr s3 \<Rightarrow>
          (case for_each (invoke exec HookGearMessageEnqueued block (Event event))
                  (getGearMessageEnqueuedHandlers hs event) s3 of
             Inl e \<Rightarrow> Inl e
           | Inr s4 \<Rightarrow>
               for_each (invoke exec HookGearMessageSent block (Event event))
                 (getGearUserMessageSentHandlers hs event) s4))))
      | CallItem call \<Rightarrow>
          for_each
            (\<lambda>handler s.
               if call_success call \<or> truthy (triggerForFailedCalls handler)
               then invoke exec HookCall block (Call call) (ce_handler handler) s
               else Inr s)
            (getCallHandlers hs call) store
      | OtherItem kind \<Rightarrow> Inl UnexpectedCase)"

definition processBlock :: "('h, 'e, 's) exec \<Rightarrow> ('h, 'd) ProcessorHandlers \<Rightarrow> 's \<Rightarrow> BlockData \<Rightarrow> 'e Error + 's" where
  "processBlock exec hs store block =
     (case for_each (invoke exec HookPre (header block) (Items (items block)))
             (hl_handlers (dh_pre hs)) store of
        Inl e \<Rightarrow> Inl e
      | Inr s1 \<Rightarrow>
     (case for_each (processItem exec hs (header block)) (items block) s1 of
        Inl e \<Rightarrow> Inl e
      | Inr s2 \<Rightarrow>
          for_each (invoke exec HookPost (header block) (Items (items block)))
            (hl_handlers (dh_post hs)) s2))"

section \<open>One store transaction per block\<close>

text \<open>
  The database as the engine sees it: the committed store and the keys of the committed
  transactions.
\<close>

record 's Database =
  db_store :: 's
  db_commits :: "(nat \<times> nat) list"

text \<open>
  Modelled from the spec: \<open>Database.transact\<close> of \<open>interfaces/db\<close>, which is not among the
  sources. It runs a function on the store inside a transaction keyed by two heights and
  commits if and only if the function completes without error; the model keeps the
  committed store and the keys of the committed transactions.
\<close>

definition transact :: "nat \<Rightarrow> nat \<Rightarrow> ('s \<Rightarrow> 'x + 's) \<Rightarrow> 's Database \<Rightarrow> 'x option \<times> 's Database" where
  "transact lo hi fn db =
     (case fn (db_store db) of
        Inl e \<Rightarrow> (Some e, db)
      | Inr s' \<Rightarrow> (None, \<lparr>db_store = s', db_commits = db_commits db @ [(lo, hi)]\<rparr>))"

text \<open>
  Modelled from the spec: \<open>withErrorContext\<close> of \<open>util/misc\<close>, which is not among the
  sources. It decorates the error with the height and the hash of the block and throws it
  again.
\<close>

definition withErrorContext :: "nat \<Rightarrow> string \<Rightarrow> 'e Error \<Rightarrow> 'e Error" where
  "withErrorContext blockHeight blockHash err = WithContext blockHeight blockHash err"

text \<open>
  The state of the runner that \<open>processBatch\<close> changes: the watermark \<open>lastBlock\<close> and the
  database. The result is the error thrown, if any, and the state at that moment.
\<close>

record 's Runner =
  lastBlock :: int
  database :: "'s Database"

fun processBatch :: "('h, 'e, 's) exec \<Rightarrow> ('h, 'd) ProcessorHandlers \<Rightarrow> BlockData list \<Rightarrow> 's Runner \<Rightarrow> 'e Error option \<times> 's Runner" where
  "processBatch exec hs [] runner = (None, runner)"
| "processBatch exec hs (block # blocks) runner =
     (if \<not> lastBlock runner < int (height (header block)) then (Some AssertionError, runner)
      else
        (case transact (height (header block)) (height (header block))
                (\<lambda>store. processBlock exec hs store block) (database runner) of
           (Some e, db') \<Rightarrow>
             (Some (withErrorContext (height (header block)) (hash (header block)) e),
              runner\<lparr>database := db'\<rparr>)
         | (None, db') \<Rightarrow>
             processBatch exec hs blocks
               (runner\<lparr>database := db', lastBlock := int (height (header block))\<rparr>)))"

definition block_key :: "BlockData \<Rightarrow> nat \<times> nat" where
  "block_key block = (height (header block), height (header block))"

section \<open>Configuration of the processor\<close>

record 'd BlockRangeOption =
  opt_range :: "Range option"
  opt_data :: "'d option"

record 'd CallHandlerOptions =
  call_opt_range :: "Range option"
  call_opt_data :: "'d option"
  call_opt_triggerForFailedCalls :: "bool option"

record 'd EvmLogOptions =
  evm_opt_range :: "Range option"
  evm_opt_filter :: "EvmTopicSet list option"
  evm_opt_data :: "'d option"

text \<open>
  A registered hook is the handler, its key and the options object spread into it; the
  model keeps the options as one field.
\<close>

record ('h, 'd) BlockHookP =
  bl_handler :: 'h
  bl_options :: "'d BlockRangeOption"

record ('h, 'd) EventHookP =
  ev_event :: QualifiedName
  ev_handler :: 'h
  ev_options :: "'d BlockRangeOption"

record ('h, 'd) CallHookP =
  cl_call :: QualifiedName
  cl_handler :: 'h
  cl_options :: "'d CallHandlerOptions"

record ('h, 'd) EvmLogHookP =
  el_handler :: 'h
  el_contractAddress :: string
  el_options :: "'d EvmLogOptions"

record ('h, 'd) ContractEmittedHookP =
  cn_handler :: 'h
  cn_contractAddress :: string
  cn_options :: "'d BlockRangeOption"

record ('h, 'd) GearHookP =
  gr_handler :: 'h
  gr_programId :: string
  gr_options :: "'d BlockRangeOption"

record ('h, 'd) ProcessorHooks =
  p_pre :: "('h, 'd) BlockHookP list"
  p_post :: "('h, 'd) BlockHookP list"
  p_event :: "('h, 'd) EventHookP list"
  p_call :: "('h, 'd) CallHookP list"
  p_evmLog :: "('h, 'd) EvmLogHookP list"
  p_contractsContractEmitted :: "('h, 'd) ContractEmittedHookP list"
  p_gearMessageEnqueued :: "('h, 'd) GearHookP list"
  p_gearUserMessageSent :: "('h, 'd) GearHookP list"

record DataSource =
  archive :: string
  chain :: "string option"

datatype Port = PortNumber int | PortString string

record ('h, 'd, 'tb) SubstrateProcessor =
  hooks :: "('h, 'd) ProcessorHooks"
  blockRange :: Range
  batchSize :: int
  prometheusPort :: "Port option"
  src :: "DataSource option"
  typesBundle :: "'tb option"
  running :: bool

text \<open>
  A configuration method either returns normally or throws; the result is the error, if
  any, and the processor as the call leaves it.
\<close>

datatype ConfigError = SettingsModificationError | AssertionFailed | NullHandler | TypesBundleError

definition newProcessor :: "('h, 'd, 'tb) SubstrateProcessor" where
  "newProcessor =
     \<lparr>hooks = \<lparr>p_pre = [], p_post = [], p_event = [], p_call = [], p_evmLog = [],
               p_contractsContractEmitted = [], p_gearMessageEnqueued = [],
               p_gearUserMessageSent = []\<rparr>,
      blockRange = \<lparr>rfrom = 0, rto = None\<rparr>,
      batchSize = 100,
      prometheusPort = None,
      src = None,
      typesBundle = None,
      running = False\<rparr>"

definition assertNotRunning :: "('h, 'd, 'tb) SubstrateProcessor \<Rightarrow> ConfigError option" where
  "assertNotRunning p = (if running p then Some SettingsModificationError else None)"

definition setDataSource :: "DataSource \<Rightarrow> ('h, 'd, 'tb) SubstrateProcessor \<Rightarrow> ConfigError option \<times> ('h, 'd, 'tb) SubstrateProcessor" where
  "setDataSource s p =
     (case assertNotRunning p of
        Some e \<Rightarrow> (Some e, p)
      | None \<Rightarrow> (None, p\<lparr>src := Some s\<rparr>))"

text \<open>
  The two lookups of a types bundle by name belong to another package; they are
  parameters here, the second one failing when it finds no file.
\<close>

definition setTypesBundle :: "(string \<Rightarrow> 'tb option) \<Rightarrow> (string \<Rightarrow> 'tb option) \<Rightarrow> string + 'tb \<Rightarrow> ('h, 'd, 'tb) SubstrateProcessor \<Rightarrow> ConfigError option \<times> ('h, 'd, 'tb) SubstrateProcessor" where
  "setTypesBundle getOldTypesBundle readOldTypesBundle bundle p =
     (case assertNotRunning p of
        Some e \<Rightarrow> (Some e, p)
      | None \<Rightarrow>
          (case bundle of
             Inl name \<Rightarrow>
               (case getOldTypesBundle name of
                  Some b \<Rightarrow> (None, p\<lparr>typesBundle := Some b\<rparr>)
                | None \<Rightarrow>
                    (case readOldTypesBundle name of
                       Some b \<Rightarrow> (None, p\<lparr>typesBundle := Some b\<rparr>)
                     | None \<Rightarrow> (Some TypesBundleError, p)))
           | Inr b \<Rightarrow> (None, p\<lparr>typesBundle := Some b\<rparr>)))"

definition setBlockRange :: "Range \<Rightarrow> ('h, 'd, 'tb) SubstrateProcessor \<Rightarrow> ConfigError option \<times> ('h, 'd, 'tb) SubstrateProcessor" where
  "setBlockRange r p =
     (case assertNotRunning p of
        Some e \<Rightarrow> (Some e, p)
      | None \<Rightarrow> (None, p\<lparr>blockRange := r\<rparr>))"

definition setBatchSize :: "int \<Rightarrow> ('h, 'd, 'tb) SubstrateProcessor \<Rightarrow> ConfigError option \<times> ('h, 'd, 'tb) SubstrateProcessor" where
  "setBatchSize n p =
     (case assertNotRunning p of
        Some e \<Rightarrow> (Some e, p)
      | None \<Rightarrow> if \<not> n > 0 then (Some AssertionFailed, p) else (None, p\<lparr>batchSize := n\<rparr>))"

definition setPrometheusPort :: "Port \<Rightarrow> ('h, 'd, 'tb) SubstrateProcessor \<Rightarrow> ConfigError option \<times> ('h, 'd, 'tb) SubstrateProcessor" where
  "setPrometheusPort port p =
     (case assertNotRunning p of
        Some e \<Rightarrow> (Some e, p)
      | None \<Rightarrow> (None, p\<lparr>prometheusPort := Some port\<rparr>))"

text \<open>
  The overloads of the registration methods: the first argument is the handler itself, or
  an options object followed by the handler, which \<open>assertNotNull\<close> requires.
\<close>

definition handler_and_options :: "'h + 'o \<Rightarrow> 'h option \<Rightarrow> 'o \<Rightarrow> ('h \<times> 'o) option" where
  "handler_and_options fnOrOptions fn no_options =
     (case fnOrOptions of
        Inl f \<Rightarrow> Some (f, no_options)
      | Inr options \<Rightarrow> (case fn of None \<Rightarrow> None | Some f \<Rightarrow> Some (f, options)))"

definition register :: "'h + 'o \<Rightarrow> 'h option \<Rightarrow> 'o \<Rightarrow> ('h \<Rightarrow> 'o \<Rightarrow> ('h, 'd) ProcessorHooks \<Rightarrow> ('h, 'd) ProcessorHooks) \<Rightarrow> ('h, 'd, 'tb) SubstrateProcessor \<Rightarrow> ConfigError option \<times> ('h, 'd, 'tb) SubstrateProcessor" where
  "register fnOrOptions fn no_options push p =
     (case assertNotRunning p of
        Some e \<Rightarrow> (Some e, p)
      | None \<Rightarrow>
          (case handler_and_options fnOrOptions fn no_options of
             None \<Rightarrow> (Some NullHandler, p)
           | Some (handler, options) \<Rightarrow> (None, p\<lparr>hooks := push handler options (hooks p)\<rparr>)))"

definition no_range_options :: "'d BlockRangeOption" where
  "no_range_options = \<lparr>opt_range = None, opt_data = None\<rparr>"

definition addPreHook :: "'h + 'd BlockRangeOption \<Rightarrow> 'h option \<Rightarrow> ('h, 'd, 'tb) SubstrateProcessor \<Rightarrow> ConfigError option \<times> ('h, 'd, 'tb) SubstrateProcessor" where
  "addPreHook fnOrOptions fn p =
     register fnOrOptions fn no_range_options
       (\<lambda>handler options hk. hk\<lparr>p_pre := p_pre hk @ [\<lparr>bl_handler = handler, bl_options = options\<rparr>]\<rparr>) p"

definition addPostHook :: "'h + 'd BlockRangeOption \<Rightarrow> 'h option \<Rightarrow> ('h, 'd, 'tb) SubstrateProcessor \<Rightarrow> ConfigError option \<times> ('h, 'd, 'tb) SubstrateProcessor" where
  "addPostHook fnOrOptions fn p =
     register fnOrOptions fn no_range_options
       (\<lambda>handler options hk. hk\<lparr>p_post := p_post hk @ [\<lparr>bl_handler = handler, bl_options = options\<rparr>]\<rparr>) p"

definition addEventHandler :: "QualifiedName \<Rightarrow> 'h + 'd BlockRangeOption \<Rightarrow> 'h option \<Rightarrow> ('h, 'd, 'tb) SubstrateProcessor \<Rightarrow> ConfigError option \<times> ('h, 'd, 'tb) SubstrateProcessor" where
  "addEventHandler eventName fnOrOptions fn p =
     register fnOrOptions fn no_range_options
       (\<lambda>handler options hk.
          hk\<lparr>p_event := p_event hk @
               [\<lparr>ev_event = eventName, ev_handler = handler, ev_options = options\<rparr>]\<rparr>) p"

definition addCallHandler :: "QualifiedName \<Rightarrow> 'h + 'd CallHandlerOptions \<Rightarrow> 'h option \<Rightarrow> ('h, 'd, 'tb) SubstrateProcessor \<Rightarrow> ConfigError option \<times> ('h, 'd, 'tb) SubstrateProcessor" where
  "addCallHandler callName fnOrOptions fn p =
     register fnOrOptions fn
       \<lparr>call_opt_range = None, call_opt_data = None, call_opt_triggerForFailedCalls = None\<rparr>
       (\<lambda>handler options hk.
          hk\<lparr>p_call := p_call hk @
               [\<lparr>cl_call = callName, cl_handler = handler, cl_options = options\<rparr>]\<rparr>) p"

text \<open>
  \<open>String.prototype.toLowerCase\<close> on the ASCII letters; contract addresses are
  hexadecimal strings.
\<close>

definition lower_char :: "char \<Rightarrow> char" where
  "lower_char c =
     (let n = (of_char c :: nat) in if 65 \<le> n \<and> n \<le> 90 then char_of (n + 32) else c)"

definition toLowerCase :: "string \<Rightarrow> string" where
  "toLowerCase s = map lower_char s"

definition addEvmLogHandler :: "string \<Rightarrow> 'h + 'd EvmLogOptions \<Rightarrow> 'h option \<Rightarrow> ('h, 'd, 'tb) SubstrateProcessor \<Rightarrow> ConfigError option \<times> ('h, 'd, 'tb) SubstrateProcessor" where
  "addEvmLogHandler contractAddress fnOrOptions fn p =
     register fnOrOptions fn
       \<lparr>evm_opt_range = None, evm_opt_filter = None, evm_opt_data = None\<rparr>
       (\<lambda>handler options hk.
          hk\<lparr>p_evmLog := p_evmLog hk @
               [\<lparr>el_handler = handler, el_contractAddress = toLowerCase contractAddress,
                 el_options = options\<rparr>]\<rparr>) p"

definition addContractsContractEmittedHandler :: "string \<Rightarrow> 'h + 'd BlockRangeOption \<Rightarrow> 'h option \<Rightarrow> ('h, 'd, 'tb) SubstrateProcessor \<Rightarrow> ConfigError option \<times> ('h, 'd, 'tb) SubstrateProcessor" where
  "addContractsContractEmittedHandler contractAddress fnOrOptions fn p =
     register fnOrOptions fn no_range_options
       (\<lambda>handler options hk.
          hk\<lparr>p_contractsContractEmitted := p_contractsContractEmitted hk @
               [\<lparr>cn_handler = handler, cn_contractAddress = toLowerCase contractAddress,
                 cn_options = options\<rparr>]\<rparr>) p"

definition addGearMessageEnqueuedHandler :: "string \<Rightarrow> 'h + 'd BlockRangeOption \<Rightarrow> 'h option \<Rightarrow> ('h, 'd, 'tb) SubstrateProcessor \<Rightarrow> ConfigError option \<times> ('h, 'd, 'tb) SubstrateProcessor" where
  "addGearMessageEnqueuedHandler programId fnOrOptions fn p =
     register fnOrOptions fn no_range_options
       (\<lambda>handler options hk.
          hk\<lparr>p_gearMessageEnqueued := p_gearMessageEnqueued hk @
               [\<lparr>gr_handler = handler, gr_programId = programId, gr_options = options\<rparr>]\<rparr>) p"

definition addGearUserMessageSentHandler :: "string \<Rightarrow> 'h + 'd BlockRangeOption \<Rightarrow> 'h option \<Rightarrow> ('h, 'd, 'tb) SubstrateProcessor \<Rightarrow> ConfigError option \<times> ('h, 'd, 'tb) SubstrateProcessor" where
  "addGearUserMessageSentHandler programId fnOrOptions fn p =
     register fnOrOptions fn no_range_options
       (\<lambda>handler options hk.
          hk\<lparr>p_gearUserMessageSent := p_gearUserMessageSent hk @
               [\<lparr>gr_handler = handler, gr_programId = programId, gr_options = options\<rparr>]\<rparr>) p"

definition run :: "('h, 'd, 'tb) SubstrateProcessor \<Rightarrow> ('h, 'd, 'tb) SubstrateProcessor" where
  "run p = (if running p then p else p\<lparr>running := True\<rparr>)"

section \<open>The batches of the processor\<close>

text \<open>
  Modelled from the spec: \<open>Batch<R>\<close> of \<open>batch/generic\<close>, which is not among the sources:
  a range of heights with the request that applies to it.
\<close>

record 'r RequestBatch =
  rb_range :: Range
  request :: 'r





























section \<open>The dispatch order in the words of the specification\<close>

definition inv :: "Hook \<Rightarrow> BlockHeader \<Rightarrow> Payload \<Rightarrow> 'h \<Rightarrow> 'h Invocation" where
  "inv hook block payload handler =
     \<lparr>inv_hook = hook, inv_handler = handler, inv_block = block, inv_payload = payload\<rparr>"

definition run_invocations :: "('h, 'e, 's) exec \<Rightarrow> 'h Invocation list \<Rightarrow> 's \<Rightarrow> 'e Error + 's" where
  "run_invocations exec invs store =
     for_each (\<lambda>i s. case exec i s of Inl e \<Rightarrow> Inl (HandlerError e) | Inr s' \<Rightarrow> Inr s') invs store"

text \<open>
A handler that only records its call: the store is the list of calls made so far.
\<close>

definition record_exec :: "('h, 'e, 'h Invocation list) exec" where
  "record_exec i trace = Inr (trace @ [i])"

text \<open>
  What the engine does in a block is a list of steps: a step is the call of a handler
  (\<open>Inr\<close>) or an error that the engine itself throws at that point (\<open>Inl\<close>). The steps run
  in order, and the first error, of a handler or of the engine, ends the run.
\<close>

definition run_steps :: "('h, 'e, 's) exec \<Rightarrow> ('e Error + 'h Invocation) list \<Rightarrow> 's \<Rightarrow> 'e Error + 's" where
  "run_steps exec steps store =
     for_each
       (\<lambda>step s.
          case step of
            Inl e \<Rightarrow> Inl e
          | Inr i \<Rightarrow> (case exec i s of Inl e \<Rightarrow> Inl (HandlerError e) | Inr s' \<Rightarrow> Inr s'))
       steps store"




definition triggered :: "SubstrateCall \<Rightarrow> 'h CallHandlerEntry \<Rightarrow> bool" where
  "triggered c entry = (call_success c \<or> triggerForFailedCalls entry = Some True)"




text \<open>
  A position of a topic filter against the topic of the log at that position, which is
  \<open>None\<close> beyond the last topic; and a whole filter against the topics of a log.
\<close>

fun position_matches :: "EvmTopicSet \<Rightarrow> string option \<Rightarrow> bool" where
  "position_matches TopicAny t = True"
| "position_matches (TopicOne lit) t = (t = Some lit)"
| "position_matches (TopicMany lits) t = (case t of None \<Rightarrow> False | Some x \<Rightarrow> x \<in> set lits)"

definition filter_matches :: "EvmTopicSet list option \<Rightarrow> string list \<Rightarrow> bool" where
  "filter_matches flt topics =
     (case flt of
        None \<Rightarrow> True
      | Some f \<Rightarrow> list_all (\<lambda>i. position_matches (f ! i) (topic_at topics i)) [0..<length f])"







section \<open>Example blocks, handlers and processors\<close>

definition w_header :: BlockHeader where
  "w_header = \<lparr>height = 10, hash = ''0x0a''\<rparr>"

definition plain_event :: "QualifiedName \<Rightarrow> string \<Rightarrow> SubstrateEvent" where
  "plain_event name ident =
     \<lparr>event_name = name, event_id = ident, args_address = None, args_log = None,
      args_topics = None, args_contract = [], args_destination = [], args_message_source = []\<rparr>"


definition nested_log_event :: "string \<Rightarrow> string \<Rightarrow> SubstrateEvent" where
  "nested_log_event ident address =
     (plain_event ''EVM.Log'' ident)\<lparr>args_log := Some (Some address)\<rparr>"

definition failed_call :: SubstrateCall where
  "failed_call = \<lparr>call_name = ''Balances.transfer'', call_id = ''c1'', call_success = False\<rparr>"


definition nested_block :: BlockData where
  "nested_block =
     \<lparr>header = w_header,
      items = [EventItem (nested_log_event ''e5'' ''0xabc''),
               EventItem (plain_event ''Balances.Transfer'' ''e6'')]\<rparr>"

definition w_filter_entry :: "nat EvmLogEntry" where
  "w_filter_entry = \<lparr>entry_filter = Some [TopicAny, TopicOne ''0xABC''], entry_handler = 11\<rparr>"

definition w_handlers :: "(nat, unit) ProcessorHandlers" where
  "w_handlers =
     \<lparr>dh_pre = \<lparr>hl_handlers = [1, 2], hl_data = None\<rparr>,
      dh_post = \<lparr>hl_handlers = [9], hl_data = None\<rparr>,
      dh_events = [''*'' \<mapsto> \<lparr>hl_handlers = [3], hl_data = None\<rparr>,
                   ''Balances.Transfer'' \<mapsto> \<lparr>hl_handlers = [4], hl_data = None\<rparr>,
                   ''EVM.Log'' \<mapsto> \<lparr>hl_handlers = [5], hl_data = None\<rparr>],
      dh_calls = [''*'' \<mapsto> \<lparr>hl_handlers = [\<lparr>ce_handler = 6, triggerForFailedCalls = None\<rparr>], hl_data = None\<rparr>,
                  ''Balances.transfer'' \<mapsto>
                     \<lparr>hl_handlers = [\<lparr>ce_handler = 7, triggerForFailedCalls = Some False\<rparr>,
                                     \<lparr>ce_handler = 8, triggerForFailedCalls = Some True\<rparr>],
                      hl_data = None\<rparr>],
      dh_evmLogs = [''0xabc'' \<mapsto> [\<lparr>entry_filter = None, entry_handler = 10\<rparr>, w_filter_entry]],
      dh_contractsContractEmitted = Map.empty,
      dh_gearMessageEnqueued = Map.empty,
      dh_gearUserMessageSent = Map.empty\<rparr>"

definition throwing_exec :: "(nat, string, nat list) exec" where
  "throwing_exec i store =
     (if height (inv_block i) = 11 then Inl ''boom'' else Inr (store @ [height (inv_block i)]))"

definition pre_only :: "(nat, unit) ProcessorHandlers" where
  "pre_only =
     \<lparr>dh_pre = \<lparr>hl_handlers = [1], hl_data = None\<rparr>,
      dh_post = \<lparr>hl_handlers = [], hl_data = None\<rparr>,
      dh_events = Map.empty, dh_calls = Map.empty, dh_evmLogs = Map.empty,
      dh_contractsContractEmitted = Map.empty, dh_gearMessageEnqueued = Map.empty,
      dh_gearUserMessageSent = Map.empty\<rparr>"

definition empty_block :: "nat \<Rightarrow> string \<Rightarrow> BlockData" where
  "empty_block n h = \<lparr>header = \<lparr>height = n, hash = h\<rparr>, items = []\<rparr>"

definition runner_at_9 :: "nat list Runner" where
  "runner_at_9 = \<lparr>lastBlock = 9, database = \<lparr>db_store = [], db_commits = []\<rparr>\<rparr>"

definition runner_at_10 :: "nat list Runner" where
  "runner_at_10 = \<lparr>lastBlock = 10, database = \<lparr>db_store = [10], db_commits = [(10, 10)]\<rparr>\<rparr>"

definition started :: "(nat, unit, unit) SubstrateProcessor" where
  "started = run newProcessor"









section \<open>The dispatch engine runs the handlers in the order of their lists\<close>

lemma for_each_append:
  "for_each f (xs @ ys) s = (case for_each f xs s of Inl e \<Rightarrow> Inl e | Inr s' \<Rightarrow> for_each f ys s')"
  by (induction xs arbitrary: s) (auto split: sum.splits)

lemma run_invocations_append:
  "run_invocations exec (xs @ ys) s =
     (case run_invocations exec xs s of Inl e \<Rightarrow> Inl e | Inr s' \<Rightarrow> run_invocations exec ys s')"
  unfolding run_invocations_def by (rule for_each_append)

lemma run_invocations_Nil [simp]: "run_invocations exec [] s = Inr s"
  by (simp add: run_invocations_def)

lemma for_each_calls:
  "for_each (\<lambda>handler s.
               if call_success c \<or> truthy (triggerForFailedCalls handler)
               then invoke exec HookCall block (Call c) (ce_handler handler) s
               else Inr s) xs s =
     run_invocations exec (map (\<lambda>entry. inv HookCall block (Call c) (ce_handler entry)) (filter (triggered c) xs)) s"
  by (induction xs arbitrary: s)
     (auto simp: run_invocations_def invoke_def inv_def triggered_def truthy_def split: sum.splits)


lemma run_steps_Nil [simp]: "run_steps exec [] s = Inr s"
  by (simp add: run_steps_def)









text \<open>
  Claim C5. For every call item, the handlers called are the handlers registered under
  \<open>*\<close> followed by those registered under the call's name, and of these exactly the
  ones for which the call succeeded or the handler was registered with the flag for
  failed calls: a handler without the flag is not called on a failed call, one with the
  flag is. The second equation is the list of calls made when no handler throws.
\<close>

theorem call_handlers_triggered:
  "processItem exec hs block (CallItem c) store =
     run_invocations exec
       (map (\<lambda>entry. inv HookCall block (Call c) (ce_handler entry))
          (filter (\<lambda>entry. call_success c \<or> triggerForFailedCalls entry = Some True)
             (handlers_of (dh_calls hs) ''*'' @ handlers_of (dh_calls hs) (call_name c)))) store \<and>
   processItem record_exec hs block (CallItem c) [] =
     (Inr (map (\<lambda>entry. inv HookCall block (Call c) (ce_handler entry))
          (filter (\<lambda>entry. call_success c \<or> triggerForFailedCalls entry = Some True)
             (handlers_of (dh_calls hs) ''*'' @ handlers_of (dh_calls hs) (call_name c))))
      :: unit Error + 'h Invocation list)"
proof -
  have r: "\<And>xs tr. run_invocations record_exec xs tr = (Inr (tr @ xs) :: unit Error + 'h Invocation list)"
  proof -
    fix xs :: "'h Invocation list" and tr
    show "run_invocations record_exec xs tr = (Inr (tr @ xs) :: unit Error + 'h Invocation list)"
      by (induction xs arbitrary: tr) (auto simp: run_invocations_def record_exec_def)
  qed
  have t: "triggered c = (\<lambda>entry. call_success c \<or> triggerForFailedCalls entry = Some True)"
    by (rule ext) (simp add: triggered_def)
  show ?thesis
    by (simp add: processItem_def for_each_calls getCallHandlers_def r t)
qed

theorem call_handlers_triggered_witness:
  "processItem record_exec w_handlers w_header (CallItem failed_call) [] =
     (Inr [inv HookCall w_header (Call failed_call) 8] :: unit Error + nat Invocation list)"
proof -
  have f: "filter (\<lambda>entry. call_success failed_call \<or> triggerForFailedCalls entry = Some True)
          (handlers_of (dh_calls w_handlers) ''*'' @
           handlers_of (dh_calls w_handlers) (call_name failed_call)) =
        [\<lparr>ce_handler = 8, triggerForFailedCalls = Some True\<rparr>]"
    by code_simp
  have "processItem record_exec w_handlers w_header (CallItem failed_call) [] =
     (Inr (map (\<lambda>entry. inv HookCall w_header (Call failed_call) (ce_handler entry))
          (filter (\<lambda>entry. call_success failed_call \<or> triggerForFailedCalls entry = Some True)
             (handlers_of (dh_calls w_handlers) ''*'' @
              handlers_of (dh_calls w_handlers) (call_name failed_call))))
      :: unit Error + nat Invocation list)"
    by (rule conjunct2[OF call_handlers_triggered])
  then show ?thesis unfolding f by simp
qed

section \<open>The topic filter of a log handler\<close>



lemma matches_from_no_topics:
  "args_topics ev = None \<Longrightarrow>
   matches_from flt ev i =
     (if list_all (\<lambda>j. flt ! j = TopicAny) [i..<length flt] then Inr True else Inl TypeError)"
proof (induction "length flt - i" arbitrary: i)
  case 0
  then have "\<not> i < length flt" by simp
  then show ?case by (subst matches_from.simps) auto
next
  case (Suc k)
  then have lt: "i < length flt" and k: "k = length flt - (i + 1)" by simp_all
  have u: "[i..<length flt] = i # [i + 1..<length flt]"
    using lt by (simp add: upt_conv_Cons)
  have ih: "matches_from flt ev (Suc i) =
              (if list_all (\<lambda>j. flt ! j = TopicAny) [Suc i..<length flt] then Inr True
               else (Inl TypeError :: 'a Error + bool))"
    using Suc.hyps(1)[OF k Suc.prems] by simp
  show ?case
    by (subst matches_from.simps, cases "flt ! i")
       (simp_all add: lt u ih read_topic_def Suc.prems)
qed


lemma evmHandlerMatches_no_topics:
  "args_topics ev = None \<Longrightarrow>
   evmHandlerMatches handler ev =
     (case entry_filter handler of
        None \<Rightarrow> Inr True
      | Some flt \<Rightarrow> if list_all (\<lambda>x. x = TopicAny) flt then Inr True else Inl TypeError)"
  by (auto simp: evmHandlerMatches_def matches_from_no_topics list_all_iff all_set_conv_all_nth
      split: option.splits)


lemma filter_matches_positions:
  "filter_matches flt topics =
     (case flt of
        None \<Rightarrow> True
      | Some f \<Rightarrow> \<forall>i<length f. position_matches (f ! i) (topic_at topics i))"
  by (auto simp: filter_matches_def list_all_iff split: option.splits)

text \<open>
  Claim C6 fails for a log that the engine accepts. An \<open>EVM.Log\<close> event that carries
  its log under \<open>args.log\<close> has no \<open>args.topics\<close>. The engine takes the contract address
  of such an event from \<open>args.log.address\<close>, finds the handlers registered for it, and
  calls the handler without a filter; for the handler with the filter
  \<open>[undefined, 0xABC]\<close> it reads \<open>args.topics[1]\<close> of \<open>undefined\<close> and throws instead of
  matching or not matching, whatever the topics of the log are, so the block fails.
\<close>

theorem evmHandlerMatches_nested_log_throws:
  "evm_contract_address (nested_log_event ''e5'' ''0xabc'') = (Inr ''0xabc'' :: unit Error + string) \<and>
   evmHandlerMatches w_filter_entry (nested_log_event ''e5'' ''0xabc'') = (Inl TypeError :: unit Error + bool) \<and>
   getEvmLogHandlers (dh_evmLogs w_handlers) (nested_log_event ''e5'' ''0xabc'') =
     ([Inr 10, Inl TypeError] :: (unit Error + nat) list) \<and>
   processBlock record_exec w_handlers [] nested_block = (Inl TypeError :: unit Error + nat Invocation list)"
  by code_simp

section \<open>A block commits or leaves no trace\<close>

lemma processBatch_Cons:
  "processBatch exec hs (block # blocks) r =
     (if \<not> lastBlock r < int (height (header block)) then (Some AssertionError, r)
      else
        (case processBlock exec hs (db_store (database r)) block of
           Inl e \<Rightarrow> (Some (WithContext (height (header block)) (hash (header block)) e), r)
         | Inr s' \<Rightarrow>
             processBatch exec hs blocks
               \<lparr>lastBlock = int (height (header block)),
                database = \<lparr>db_store = s',
                            db_commits = db_commits (database r) @ [block_key block]\<rparr>\<rparr>))"
proof (cases "processBlock exec hs (db_store (database r)) block")
  case (Inl e)
  then show ?thesis by (simp add: transact_def withErrorContext_def)
next
  case (Inr s')
  then show ?thesis by (cases r) (simp add: transact_def block_key_def)
qed

lemma processBatch_append:
  "processBatch exec hs pre_blocks r = (None, r1) \<Longrightarrow>
   processBatch exec hs (pre_blocks @ blocks) r = processBatch exec hs blocks r1"
proof (induction pre_blocks arbitrary: r)
  case Nil
  then show ?case by simp
next
  case (Cons b bs)
  from Cons.prems obtain s' where
    lt: "lastBlock r < int (height (header b))" and
    ok: "processBlock exec hs (db_store (database r)) b = Inr s'"
    unfolding processBatch_Cons by (auto split: if_splits sum.splits)
  from Cons.prems Cons.IH show ?case
    unfolding append_Cons processBatch_Cons by (simp add: lt ok)
qed

lemma processBatch_success:
  "processBatch exec hs blocks r = (None, r') \<Longrightarrow>
   db_commits (database r') = db_commits (database r) @ map block_key blocks \<and>
   lastBlock r' = (if blocks = [] then lastBlock r else int (height (header (last blocks))))"
proof (induction blocks arbitrary: r)
  case Nil
  then show ?case by simp
next
  case (Cons b bs)
  from Cons.prems obtain s' where
    lt: "lastBlock r < int (height (header b))" and
    ok: "processBlock exec hs (db_store (database r)) b = Inr s'"
    unfolding processBatch_Cons by (auto split: if_splits sum.splits)
  let ?r = "\<lparr>lastBlock = int (height (header b)),
             database = \<lparr>db_store = s', db_commits = db_commits (database r) @ [block_key b]\<rparr>\<rparr>"
  from Cons.prems have "processBatch exec hs bs ?r = (None, r')"
    unfolding processBatch_Cons by (simp add: lt ok)
  from Cons.IH[OF this] show ?case by simp
qed

text \<open>
  Claim C3. Let the blocks before \<open>block\<close> have been processed without error, leaving the
  runner in state \<open>r1\<close>: every one of them committed a transaction keyed
  \<open>(height, height)\<close>, and the watermark is the height of the last one. Then \<open>processBatch\<close> first
  asserts \<open>lastBlock < block.height\<close>. If a handler throws in \<open>block\<close>, the error is
  thrown again decorated with the height and hash of \<open>block\<close>, and the runner is left in
  state \<open>r1\<close>: nothing of \<open>block\<close> is committed, the watermark keeps its value and the
  effects of the earlier blocks stay. If \<open>block\<close> completes, its transaction, keyed
  \<open>(height, height)\<close>, is committed and the watermark becomes its height.
\<close>

theorem processBatch_block:
  assumes "processBatch exec hs pre_blocks r = (None, r1)"
  shows "db_commits (database r1) = db_commits (database r) @ map block_key pre_blocks \<and>
         lastBlock r1 = (if pre_blocks = [] then lastBlock r else int (height (header (last pre_blocks)))) \<and>
         processBatch exec hs (pre_blocks @ block # rest) r =
           (if \<not> lastBlock r1 < int (height (header block)) then (Some AssertionError, r1)
            else
              (case processBlock exec hs (db_store (database r1)) block of
                 Inl e \<Rightarrow> (Some (WithContext (height (header block)) (hash (header block)) e), r1)
               | Inr s' \<Rightarrow>
                   processBatch exec hs rest
                     \<lparr>lastBlock = int (height (header block)),
                      database = \<lparr>db_store = s',
                                  db_commits = db_commits (database r1) @ [block_key block]\<rparr>\<rparr>))"
  using processBatch_success[OF assms] processBatch_append[OF assms, of "block # rest"]
  unfolding processBatch_Cons by (intro conjI) blast+

theorem processBatch_block_witness:
  "processBatch throwing_exec pre_only [empty_block 10 ''0x0a''] runner_at_9 = (None, runner_at_10) \<and>
   processBatch throwing_exec pre_only
     ([empty_block 10 ''0x0a''] @ empty_block 11 ''0x0b'' # [empty_block 12 ''0x0c'']) runner_at_9 =
     (Some (WithContext 11 ''0x0b'' (HandlerError ''boom'')), runner_at_10)"
proof -
  let ?b = "empty_block 11 ''0x0b''"
  have a: "processBatch throwing_exec pre_only [empty_block 10 ''0x0a''] runner_at_9 = (None, runner_at_10)"
    by code_simp
  have "processBatch throwing_exec pre_only
          ([empty_block 10 ''0x0a''] @ ?b # [empty_block 12 ''0x0c'']) runner_at_9 =
        (if \<not> lastBlock runner_at_10 < int (height (header ?b)) then (Some AssertionError, runner_at_10)
         else
           (case processBlock throwing_exec pre_only (db_store (database runner_at_10)) ?b of
              Inl e \<Rightarrow> (Some (WithContext (height (header ?b)) (hash (header ?b)) e), runner_at_10)
            | Inr s' \<Rightarrow>
                processBatch throwing_exec pre_only [empty_block 12 ''0x0c'']
                  \<lparr>lastBlock = int (height (header ?b)),
                   database = \<lparr>db_store = s',
                               db_commits = db_commits (database runner_at_10) @ [block_key ?b]\<rparr>\<rparr>))"
    by (rule conjunct2[OF conjunct2[OF processBatch_block[OF a]]])
  also have "\<dots> = (Some (WithContext 11 ''0x0b'' (HandlerError ''boom'')), runner_at_10)"
    by code_simp
  finally show ?thesis using a by (intro conjI)
qed

section \<open>Configuration is closed once the run has started\<close>

text \<open>
  Claim C9. Once \<open>run\<close> has set the flag \<open>running\<close>, every configuration method
  (\<open>setDataSource\<close>, \<open>setTypesBundle\<close>, \<open>setBlockRange\<close>, \<open>setBatchSize\<close>,
  \<open>setPrometheusPort\<close> and the eight registration methods) throws the error about
  settings modifications at once and leaves the processor as it was; a second \<open>run\<close>
  changes nothing.
\<close>

theorem settings_rejected_when_running:
  assumes "running p"
  shows "setDataSource s p = (Some SettingsModificationError, p) \<and>
         setTypesBundle getOld readOld bundle p = (Some SettingsModificationError, p) \<and>
         setBlockRange r p = (Some SettingsModificationError, p) \<and>
         setBatchSize n p = (Some SettingsModificationError, p) \<and>
         setPrometheusPort port p = (Some SettingsModificationError, p) \<and>
         addPreHook bo fn p = (Some SettingsModificationError, p) \<and>
         addPostHook bo fn p = (Some SettingsModificationError, p) \<and>
         addEventHandler name bo fn p = (Some SettingsModificationError, p) \<and>
         addCallHandler name co fn p = (Some SettingsModificationError, p) \<and>
         addEvmLogHandler address eo fn p = (Some SettingsModificationError, p) \<and>
         addContractsContractEmittedHandler address bo fn p = (Some SettingsModificationError, p) \<and>
         addGearMessageEnqueuedHandler programId bo fn p = (Some SettingsModificationError, p) \<and>
         addGearUserMessageSentHandler programId bo fn p = (Some SettingsModificationError, p) \<and>
         run p = p"
proof -
  have a: "assertNotRunning p = Some SettingsModificationError"
    using assms by (simp add: assertNotRunning_def)
  have r: "\<And>x f n push. register x f n push p = (Some SettingsModificationError, p)"
    by (simp add: register_def a)
  show ?thesis
    by (simp add: a r setDataSource_def setTypesBundle_def setBlockRange_def setBatchSize_def
        setPrometheusPort_def addPreHook_def addPostHook_def addEventHandler_def addCallHandler_def
        addEvmLogHandler_def addContractsContractEmittedHandler_def
        addGearMessageEnqueuedHandler_def addGearUserMessageSentHandler_def run_def assms)
qed

theorem settings_rejected_when_running_witness:
  "running started \<and>
   setDataSource \<lparr>archive = ''https://archive'', chain = None\<rparr> started = (Some SettingsModificationError, started) \<and>
   setTypesBundle (\<lambda>n. None) (\<lambda>n. None) (Inr ()) started = (Some SettingsModificationError, started) \<and>
   setBlockRange \<lparr>rfrom = 100, rto = Some 100\<rparr> started = (Some SettingsModificationError, started) \<and>
   setBatchSize 10 started = (Some SettingsModificationError, started) \<and>
   setPrometheusPort (PortNumber 3000) started = (Some SettingsModificationError, started) \<and>
   addPreHook (Inl 1) None started = (Some SettingsModificationError, started) \<and>
   addPostHook (Inl 1) None started = (Some SettingsModificationError, started) \<and>
   addEventHandler ''Balances.Transfer'' (Inl 1) None started = (Some SettingsModificationError, started) \<and>
   addCallHandler ''Balances.Transfer'' (Inl 2) None started = (Some SettingsModificationError, started) \<and>
   addEvmLogHandler ''0xabc'' (Inl 3) None started = (Some SettingsModificationError, started) \<and>
   addContractsContractEmittedHandler ''0xabc'' (Inl 1) None started = (Some SettingsModificationError, started) \<and>
   addGearMessageEnqueuedHandler ''0x01'' (Inl 1) None started = (Some SettingsModificationError, started) \<and>
   addGearUserMessageSentHandler ''0x01'' (Inl 1) None started = (Some SettingsModificationError, started) \<and>
   run started = started"
proof -
  have r: "running started" by (simp add: started_def run_def newProcessor_def)
  from r settings_rejected_when_running[OF r, of "\<lparr>archive = ''https://archive'', chain = None\<rparr>"
      "\<lambda>n. None" "\<lambda>n. None" "Inr ()" "\<lparr>rfrom = 100, rto = Some 100\<rparr>" 10 "PortNumber 3000"
      "Inl 1" None "''Balances.Transfer''" "Inl 2" "''0xabc''" "Inl 3" "''0x01''"]
  show ?thesis by (rule conjI)
qed

section \<open>What the batches of the processor offer at a height\<close>

text \<open>
  A view of a request is a multiset read from it, such as the log handlers it holds for
  one contract address. \<open>requests_at\<close> adds up, for a height, the views of the requests
  of all batches whose range contains the height; \<open>request_covered\<close> says whether some
  batch contains it. \<open>request_loop_inv\<close> is the invariant of the sweep: all ranges are
  well formed, \<open>top\<close> starts no later than any batch in the heap, and the batches already
  emitted end before \<open>top\<close> starts, each before the next.
\<close>

definition requests_at :: "('r \<Rightarrow> 'x multiset) \<Rightarrow> 'r RequestBatch multiset \<Rightarrow> nat \<Rightarrow> 'x multiset" where
  "requests_at view M h = (\<Sum>b\<in>#M. if contains (rb_range b) h then view (request b) else {#})"

definition request_covered :: "'r RequestBatch multiset \<Rightarrow> nat \<Rightarrow> bool" where
  "request_covered M h = (\<exists>b\<in>#M. contains (rb_range b) h)"



lemma requests_at_add [simp]:
  "requests_at view (add_mset b M) h =
     (if contains (rb_range b) h then view (request b) else {#}) + requests_at view M h"
  by (simp add: requests_at_def)

lemma requests_at_empty [simp]: "requests_at view {#} h = {#}"
  by (simp add: requests_at_def)

lemma request_covered_union [simp]:
  "request_covered (M + N) h = (request_covered M h \<or> request_covered N h)"
  by (auto simp: request_covered_def)

lemma request_covered_add [simp]:
  "request_covered (add_mset b M) h = (contains (rb_range b) h \<or> request_covered M h)"
  by (auto simp: request_covered_def)

lemma request_covered_empty [simp]: "request_covered {#} h = False"
  by (simp add: request_covered_def)











section \<open>The schedule of the processor, height by height\<close>






















section \<open>Contract addresses are registered in lower case\<close>





end
